theory Spec2Isabelle
  imports Main
begin

unbundle bit_operations_syntax

section \<open>Severities, tags and levels\<close>

text \<open>
  \<^verbatim>\<open>type severity int\<close> with the four constants \<^verbatim>\<open>sInfo .. sFatal\<close> (logger.go, 29-37).
  The type is unexported and every call of \<^verbatim>\<open>output\<close> and \<^verbatim>\<open>makeLog\<close> in the package passes
  one of the four constants, so the enumeration is closed; the \<^verbatim>\<open>default: panic\<close> branch
  of \<^verbatim>\<open>output\<close> has no value of this type that reaches it.
\<close>

datatype severity = sInfo | sWarning | sError | sFatal

definition tagInfo :: string where "tagInfo = ''INFO : ''"
definition tagWarning :: string where "tagWarning = ''WARN : ''"
definition tagError :: string where "tagError = ''ERROR: ''"
definition tagFatal :: string where "tagFatal = ''FATAL: ''"

definition newline :: char where "newline = CHR 0x0A"

definition initText :: string where
  "initText = ''ERROR: Logging before logger.Init.'' @ [newline]"

text \<open>The flag bits of Go's package \<^verbatim>\<open>log\<close> that the package uses, the bit \<^verbatim>\<open>Lmsgprefix\<close> that
  moves the prefix behind the header, and \<^verbatim>\<open>const flags\<close> (logger.go, 48).\<close>

definition Ldate :: int where "Ldate = 1"
definition Lmicroseconds :: int where "Lmicroseconds = 4"
definition Lshortfile :: int where "Lshortfile = 16"
definition Lmsgprefix :: int where "Lmsgprefix = 64"

definition flags :: int where
  "flags = Ldate OR Lmicroseconds OR Lshortfile"

text \<open>\<^verbatim>\<open>const flashTimeout = 3 * time.Second\<close>, in seconds.\<close>

definition flashTimeout :: nat where "flashTimeout = 3"

text \<open>The levels of the remote backend (\<^verbatim>\<open>sentry.Level\<close>).\<close>

datatype Level = LevelDebug | LevelInfo | LevelWarning | LevelError | LevelFatal

section \<open>Writers, closers and observable events\<close>

text \<open>
  An \<^verbatim>\<open>io.Writer\<close> value that the package handles: the two standard streams, a writer
  supplied by the caller (\<open>Ext n\<close>, the \<^verbatim>\<open>logFile\<close> of \<^verbatim>\<open>Init\<close>) and the package's own
  \<^verbatim>\<open>snio\<close> sinks (logger.go, 405-412). A nil interface is \<open>None\<close> of \<open>writer option\<close>.
\<close>

datatype writer = Stdout | Stderr | Ext nat | Snio Level

datatype error = ErrShortWrite | Err string

text \<open>What \<^verbatim>\<open>log.New\<close> is given: one writer, or the result of \<^verbatim>\<open>io.MultiWriter(a...)\<close>.\<close>

datatype io_Writer = Single writer | MultiWriter "writer list"

text \<open>
  The process's observable actions, in the order they happen.
  \<open>WriteEv w p\<close> is the interface call \<^verbatim>\<open>w.Write(p)\<close>, recorded when it is made;
  \<open>CloseEv c r\<close> is the interface call \<^verbatim>\<open>c.Close()\<close>, recorded when it returns \<open>r\<close>;
  \<open>CaptureEv lv p ok\<close> is \<^verbatim>\<open>sentry.WithScope\<close> setting level \<open>lv\<close> and calling
  \<^verbatim>\<open>sentry.CaptureMessage(p)\<close>, \<open>ok\<close> telling whether the backend accepted the event;
  \<open>FlushEv t\<close> is \<^verbatim>\<open>sentry.Flush(t)\<close>; \<open>FailedToCloseEv c e\<close> is the
  \<^verbatim>\<open>fmt.Fprintf(os.Stderr, "Failed to close log %v: %v\n", c, err)\<close> of \<^verbatim>\<open>Close\<close>;
  \<open>AddEv d\<close> is \<^verbatim>\<open>wg.Add(d)\<close> and \<open>DoneEv g\<close> is \<^verbatim>\<open>wg.Done()\<close> called by goroutine \<open>g\<close>;
  \<open>PanicEv g\<close> is a panic that goroutine \<open>g\<close> does not recover from.
\<close>

datatype event =
    LockEv
  | UnlockEv
  | WriteEv writer string
  | CloseEv writer "error option"
  | FailedToCloseEv writer error
  | CaptureEv Level string bool
  | FlushEv nat
  | AddEv int
  | DoneEv nat
  | PanicEv nat

text \<open>
  What the package takes from outside: the formatting functions of \<^verbatim>\<open>fmt\<close>; the header
  that \<^verbatim>\<open>log.Logger.Output\<close> builds, under given flags, from the clock and the caller's frame
  at a call depth; the result of a caller-supplied writer's \<^verbatim>\<open>Write\<close> and \<^verbatim>\<open>Close\<close> (which
  may depend on everything that happened before); whether a caller-supplied writer is an
  \<^verbatim>\<open>io.Closer\<close>; whether the backend accepts a captured message; the result of
  \<^verbatim>\<open>sentry.Init\<close>; whether the next call into the backend that goroutine \<open>g\<close> makes panics
  (\<open>panics tr g\<close>); and the bytes that a slice handed to \<^verbatim>\<open>Write\<close> holds when a goroutine
  reads it later (\<open>sliceContent tr p\<close>, which is \<open>p\<close> as long as the caller has left its buffer
  alone).
\<close>

record 'a env =
  Sprint :: "'a list \<Rightarrow> string"
  Sprintln :: "'a list \<Rightarrow> string"
  Sprintf :: "string \<Rightarrow> 'a list \<Rightarrow> string"
  header :: "event list \<Rightarrow> int \<Rightarrow> int \<Rightarrow> string"
  writeRes :: "event list \<Rightarrow> writer \<Rightarrow> string \<Rightarrow> nat \<times> error option"
  closeRes :: "event list \<Rightarrow> writer \<Rightarrow> error option"
  isCloser :: "nat \<Rightarrow> bool"
  captureRes :: "event list \<Rightarrow> Level \<Rightarrow> string \<Rightarrow> bool"
  sentry_Init :: "string \<Rightarrow> error option"
  panics :: "event list \<Rightarrow> nat \<Rightarrow> bool"
  sliceContent :: "event list \<Rightarrow> string \<Rightarrow> string"

section \<open>The Logger and the process state\<close>

text \<open>A \<^verbatim>\<open>*log.Logger\<close> made by \<^verbatim>\<open>log.New(out, prefix, flags)\<close>: its writer and its prefix,
  which never change. Its flags can change (\<^verbatim>\<open>SetFlags\<close>) and are kept in the process state.\<close>

record log_Logger =
  log_out :: io_Writer
  log_prefix :: string

definition log_New :: "io_Writer \<Rightarrow> string \<Rightarrow> log_Logger" where
  "log_New w p = \<lparr>log_out = w, log_prefix = p\<rparr>"

text \<open>\<^verbatim>\<open>type Logger struct\<close> (logger.go, 140-147); \<open>addr\<close> is the address of the value, which
  distinguishes two Loggers with equal fields.\<close>

record Logger =
  infoLog :: log_Logger
  warningLog :: log_Logger
  errorLog :: log_Logger
  fatalLog :: log_Logger
  closers :: "writer list"
  initialized :: bool
  addr :: nat

text \<open>
  The body of a goroutine started by the asynchronous sinks, as the calls it still has
  to make. What is captured is a string the closure holds (\<open>Text\<close>, in \<^verbatim>\<open>internal.Info\<close>) or
  the conversion \<^verbatim>\<open>string(p)\<close> of the slice that \<^verbatim>\<open>Write\<close> was given (\<open>Slice\<close>), which the
  goroutine makes when it runs.
\<close>

datatype source = Text string | Slice string

datatype instr = ICapture Level source | IFlush | IDone

text \<open>
  The package-level variables and what the process has done so far:
  \<open>client\<close> is \<^verbatim>\<open>sentry.CurrentHub().Client() != nil\<close>; \<open>connected\<close> and \<open>wg\<close> are the
  variables of package \<^verbatim>\<open>internal\<close> (\<^verbatim>\<open>remote\<close> in its earlier form), \<open>wg\<close> being the
  counter of the \<^verbatim>\<open>sync.WaitGroup\<close>; \<open>tasks\<close> holds, for every goroutine started, the calls
  it has not made yet; \<open>heap_top\<close> is the next free address; \<open>flag_of a sv\<close> is the flags
  of the \<^verbatim>\<open>*log.Logger\<close> that the Logger at address \<open>a\<close> has for severity \<open>sv\<close>; \<open>crashed\<close>
  tells that a goroutine has panicked, which ends the process.
\<close>

record process =
  trace :: "event list"
  client :: bool
  connected :: bool
  wg :: int
  tasks :: "instr list list"
  defaultLogger :: Logger
  heap_top :: nat
  flag_of :: "nat \<Rightarrow> severity \<Rightarrow> int"
  crashed :: bool

datatype outcome = Returned process | Exited int process

definition emit :: "event list \<Rightarrow> process \<Rightarrow> process" where
  "emit evs s = s\<lparr>trace := trace s @ evs\<rparr>"

definition Lock :: "process \<Rightarrow> process" where
  "Lock s = emit [LockEv] s"

definition Unlock :: "process \<Rightarrow> process" where
  "Unlock s = emit [UnlockEv] s"

section \<open>The sinks of package logger (logger.go, 403-434)\<close>

definition sentryFatalLog :: writer where "sentryFatalLog = Snio LevelFatal"
definition sentryErrorLog :: writer where "sentryErrorLog = Snio LevelError"
definition sentryWarnLog :: writer where "sentryWarnLog = Snio LevelWarning"
definition sentryInfoLog :: writer where "sentryInfoLog = Snio LevelInfo"

definition capture :: "'a env \<Rightarrow> Level \<Rightarrow> string \<Rightarrow> process \<Rightarrow> process" where
  "capture env lv p s = emit [CaptureEv lv p (captureRes env (trace s) lv p)] s"

definition Flush :: "process \<Rightarrow> process" where
  "Flush s = emit [FlushEv flashTimeout] s"

text \<open>\<^verbatim>\<open>func sentryOutput(p []byte, level sentry.Level)\<close> (logger.go, 414-422), called in the
  caller's goroutine. The two calls into the backend are taken to return here; a call
  into the backend that panics is modelled where a goroutine of the asynchronous sinks
  makes it.\<close>

definition sentryOutput :: "'a env \<Rightarrow> string \<Rightarrow> Level \<Rightarrow> process \<Rightarrow> process" where
  "sentryOutput env p level s =
     (let s1 = capture env level p s
      in if level = LevelFatal then Flush s1 else s1)"

text \<open>\<^verbatim>\<open>func (sn *snio) Write(p []byte) (n int, err error)\<close> of package logger.\<close>

definition snio_Write ::
  "'a env \<Rightarrow> Level \<Rightarrow> string \<Rightarrow> process \<Rightarrow> (nat \<times> error option) \<times> process" where
  "snio_Write env level p s =
     ((0, None), if client s then sentryOutput env p level s else s)"

definition snio_Close :: "process \<Rightarrow> error option \<times> process" where
  "snio_Close s = (None, Flush s)"

section \<open>Interface calls, io.MultiWriter and log.Logger.Output\<close>

definition writer_Write ::
  "'a env \<Rightarrow> writer \<Rightarrow> string \<Rightarrow> process \<Rightarrow> (nat \<times> error option) \<times> process" where
  "writer_Write env w p s0 =
     (let s = emit [WriteEv w p] s0
      in case w of
           Snio level \<Rightarrow> snio_Write env level p s
         | _ \<Rightarrow> (writeRes env (trace s0) w p, s))"

definition closer_Close :: "'a env \<Rightarrow> writer \<Rightarrow> process \<Rightarrow> error option \<times> process" where
  "closer_Close env c s =
     (case (case c of
              Snio level \<Rightarrow> snio_Close s
            | _ \<Rightarrow> (closeRes env (trace s) c, s)) of
        (err, s1) \<Rightarrow> (err, emit [CloseEv c err] s1))"

text \<open>
  The \<^verbatim>\<open>Write\<close> of Go's \<^verbatim>\<open>io.MultiWriter\<close>: the writers in order; it stops at the first
  error, and at the first writer that reports a count other than \<^verbatim>\<open>len(p)\<close> with
  \<^verbatim>\<open>io.ErrShortWrite\<close>.
\<close>

fun multiWriter_Write ::
  "'a env \<Rightarrow> writer list \<Rightarrow> string \<Rightarrow> process \<Rightarrow> (nat \<times> error option) \<times> process" where
  "multiWriter_Write env [] p s = ((length p, None), s)"
| "multiWriter_Write env (w # ws) p s =
     (case writer_Write env w p s of
        ((n, err), s1) \<Rightarrow>
          if err \<noteq> None then ((n, err), s1)
          else if n \<noteq> length p then ((n, Some ErrShortWrite), s1)
          else multiWriter_Write env ws p s1)"

definition io_Write ::
  "'a env \<Rightarrow> io_Writer \<Rightarrow> string \<Rightarrow> process \<Rightarrow> (nat \<times> error option) \<times> process" where
  "io_Write env out p s =
     (case out of
        Single w \<Rightarrow> writer_Write env w p s
      | MultiWriter ws \<Rightarrow> multiWriter_Write env ws p s)"

text \<open>
  The record that \<^verbatim>\<open>log.Logger.Output(calldepth, s)\<close> writes under the flags \<open>flag\<close>: the
  prefix, the header (date, time, file and line of the frame at \<open>calldepth\<close>, as the flags
  ask), the text, and a newline when the text does not end with one. With \<^verbatim>\<open>Lmsgprefix\<close> set
  the prefix comes after the header.
\<close>

definition format_record ::
  "'a env \<Rightarrow> int \<Rightarrow> string \<Rightarrow> event list \<Rightarrow> int \<Rightarrow> string \<Rightarrow> string" where
  "format_record env flag prefix tr calldepth txt =
     (if flag AND Lmsgprefix = 0
      then prefix @ header env tr flag calldepth
      else header env tr flag calldepth @ prefix) @
     txt @
     (if txt = [] \<or> last txt \<noteq> newline then [newline] else [])"

definition log_Output ::
  "'a env \<Rightarrow> log_Logger \<Rightarrow> int \<Rightarrow> int \<Rightarrow> string \<Rightarrow> process \<Rightarrow> error option \<times> process" where
  "log_Output env lg flag calldepth txt s =
     (case io_Write env (log_out lg)
             (format_record env flag (log_prefix lg) (trace s) calldepth txt) s of
        ((n, err), s1) \<Rightarrow> (err, s1))"

section \<open>Logger: output, Close, Init (logger.go, 52-182)\<close>

text \<open>\<^verbatim>\<open>func (l *Logger) output\<close> is \<open>Logger_output\<close> here; the deferred unlock is the last
  step. The \<^verbatim>\<open>*log.Logger\<close> of the severity formats under the flags it has at that moment.
  The error that \<^verbatim>\<open>log.Logger.Output\<close> returns is dropped, as in the source.\<close>

definition Logger_output :: "'a env \<Rightarrow> Logger \<Rightarrow> severity \<Rightarrow> int \<Rightarrow> string \<Rightarrow> process \<Rightarrow> process" where
  "Logger_output env l sv depth txt s =
     (let s1 = Lock s;
          s2 = (case sv of
                  sInfo \<Rightarrow>
                    snd (log_Output env (infoLog l) (flag_of s (addr l) sInfo) (3 + depth) txt s1)
                | sWarning \<Rightarrow>
                    snd (log_Output env (warningLog l) (flag_of s (addr l) sWarning) (3 + depth)
                           txt s1)
                | sError \<Rightarrow>
                    snd (log_Output env (errorLog l) (flag_of s (addr l) sError) (3 + depth) txt s1)
                | sFatal \<Rightarrow>
                    snd (log_Output env (fatalLog l) (flag_of s (addr l) sFatal) (3 + depth) txt s1))
      in Unlock s2)"

fun close_all :: "'a env \<Rightarrow> writer list \<Rightarrow> process \<Rightarrow> process" where
  "close_all env [] s = s"
| "close_all env (c # cs) s =
     (case closer_Close env c s of
        (None, s1) \<Rightarrow> close_all env cs s1
      | (Some err, s1) \<Rightarrow> close_all env cs (emit [FailedToCloseEv c err] s1))"

definition Close :: "'a env \<Rightarrow> Logger \<Rightarrow> process \<Rightarrow> process" where
  "Close env l s =
     (let s1 = Lock s
      in if \<not> initialized l then Unlock s1
         else Unlock (close_all env (closers l) s1))"

definition makeLog :: "bool \<Rightarrow> writer option \<Rightarrow> severity \<Rightarrow> writer list \<Rightarrow> log_Logger" where
  "makeLog verbose logFile level w =
     (let a0 = (case logFile of None \<Rightarrow> [] | Some f \<Rightarrow> [f]);
          (v, tag) = (case level of
                        sInfo \<Rightarrow> (Stdout, tagInfo)
                      | sWarning \<Rightarrow> (Stdout, tagWarning)
                      | sError \<Rightarrow> (Stderr, tagError)
                      | sFatal \<Rightarrow> (Stderr, tagFatal));
          a1 = (if verbose then a0 @ [v] else a0);
          a2 = a1 @ w
      in log_New (MultiWriter a2) tag)"

text \<open>The type assertion \<^verbatim>\<open>logFile.(io.Closer)\<close>: the standard streams are files and the
  package's sinks have a \<^verbatim>\<open>Close\<close> method.\<close>

definition is_Closer :: "'a env \<Rightarrow> writer \<Rightarrow> bool" where
  "is_Closer env w = (case w of Ext n \<Rightarrow> isCloser env n | _ \<Rightarrow> True)"

definition new_Logger :: "'a env \<Rightarrow> bool \<Rightarrow> writer option \<Rightarrow> nat \<Rightarrow> Logger" where
  "new_Logger env verbose logFile a =
     \<lparr>infoLog = makeLog verbose logFile sInfo [sentryInfoLog],
      warningLog = makeLog verbose logFile sWarning [sentryWarnLog],
      errorLog = makeLog verbose logFile sError [sentryErrorLog],
      fatalLog = makeLog verbose logFile sFatal [sentryFatalLog],
      closers = [sentryFatalLog] @
        (case logFile of
           None \<Rightarrow> []
         | Some f \<Rightarrow> if is_Closer env f then [f] else []),
      initialized = True,
      addr = a\<rparr>"

text \<open>\<^verbatim>\<open>Init\<close>: the Logger is built (each \<^verbatim>\<open>log.New\<close> with \<^verbatim>\<open>flags\<close>) at a fresh address, then
  installed as the default under the lock when the default is not initialized.\<close>

definition Init ::
  "'a env \<Rightarrow> string \<Rightarrow> bool \<Rightarrow> bool \<Rightarrow> writer option \<Rightarrow> process \<Rightarrow> Logger \<times> process" where
  "Init env name verbose unused logFile s =
     (let l = new_Logger env verbose logFile (heap_top s);
          s0 = s\<lparr>heap_top := Suc (heap_top s),
                 flag_of := (flag_of s)(heap_top s := (\<lambda>sv. flags))\<rparr>;
          s1 = Lock s0;
          s2 = (if \<not> initialized (defaultLogger s1) then s1\<lparr>defaultLogger := l\<rparr> else s1)
      in (l, Unlock s2))"

definition fallback_Logger :: "nat \<Rightarrow> Logger" where
  "fallback_Logger a =
     \<lparr>infoLog = log_New (Single Stderr) (initText @ tagInfo),
      warningLog = log_New (Single Stderr) (initText @ tagWarning),
      errorLog = log_New (Single Stderr) (initText @ tagError),
      fatalLog = log_New (Single Stderr) (initText @ tagFatal),
      closers = [],
      initialized = False,
      addr = a\<rparr>"

definition initialize :: "process \<Rightarrow> process" where
  "initialize s =
     s\<lparr>defaultLogger := fallback_Logger (heap_top s),
       heap_top := Suc (heap_top s),
       flag_of := (flag_of s)(heap_top s := (\<lambda>sv. flags))\<rparr>"

text \<open>The process after the package's \<^verbatim>\<open>init()\<close>: nothing has happened, the backend has no
  client, and the default logger is the fallback.\<close>

definition boot :: process where
  "boot = initialize
     \<lparr>trace = [], client = False, connected = False, wg = 0, tasks = [],
      defaultLogger = fallback_Logger 0, heap_top = 0, flag_of = (\<lambda>a sv. flags),
      crashed = False\<rparr>"

text \<open>\<^verbatim>\<open>func SetFlags(flag int)\<close> (logger.go, 289-294): the flags of the default logger's
  info and warning \<^verbatim>\<open>*log.Logger\<close>; the two lines for error and fatal are commented out in
  the source.\<close>

definition SetFlags :: "int \<Rightarrow> process \<Rightarrow> process" where
  "SetFlags flag s =
     s\<lparr>flag_of := (flag_of s)
          (addr (defaultLogger s) :=
             (flag_of s (addr (defaultLogger s)))(sInfo := flag, sWarning := flag))\<rparr>"

section \<open>The logging entry points (logger.go, 184-401)\<close>

text \<open>The methods of \<^verbatim>\<open>*Logger\<close>.\<close>

definition Logger_Info :: "'a env \<Rightarrow> Logger \<Rightarrow> 'a list \<Rightarrow> process \<Rightarrow> process" where
  "Logger_Info env l v s = Logger_output env l sInfo 0 (Sprint env v) s"

definition Logger_InfoDepth :: "'a env \<Rightarrow> Logger \<Rightarrow> int \<Rightarrow> 'a list \<Rightarrow> process \<Rightarrow> process" where
  "Logger_InfoDepth env l depth v s = Logger_output env l sInfo depth (Sprint env v) s"

definition Logger_Infoln :: "'a env \<Rightarrow> Logger \<Rightarrow> 'a list \<Rightarrow> process \<Rightarrow> process" where
  "Logger_Infoln env l v s = Logger_output env l sInfo 0 (Sprintln env v) s"

definition Logger_Infof :: "'a env \<Rightarrow> Logger \<Rightarrow> string \<Rightarrow> 'a list \<Rightarrow> process \<Rightarrow> process" where
  "Logger_Infof env l format v s = Logger_output env l sInfo 0 (Sprintf env format v) s"

definition Logger_Warning :: "'a env \<Rightarrow> Logger \<Rightarrow> 'a list \<Rightarrow> process \<Rightarrow> process" where
  "Logger_Warning env l v s = Logger_output env l sWarning 0 (Sprint env v) s"

definition Logger_WarningDepth :: "'a env \<Rightarrow> Logger \<Rightarrow> int \<Rightarrow> 'a list \<Rightarrow> process \<Rightarrow> process" where
  "Logger_WarningDepth env l depth v s = Logger_output env l sWarning depth (Sprint env v) s"

definition Logger_Warningln :: "'a env \<Rightarrow> Logger \<Rightarrow> 'a list \<Rightarrow> process \<Rightarrow> process" where
  "Logger_Warningln env l v s = Logger_output env l sWarning 0 (Sprintln env v) s"

definition Logger_Warningf :: "'a env \<Rightarrow> Logger \<Rightarrow> string \<Rightarrow> 'a list \<Rightarrow> process \<Rightarrow> process" where
  "Logger_Warningf env l format v s = Logger_output env l sWarning 0 (Sprintf env format v) s"

definition Logger_Error :: "'a env \<Rightarrow> Logger \<Rightarrow> 'a list \<Rightarrow> process \<Rightarrow> process" where
  "Logger_Error env l v s = Logger_output env l sError 0 (Sprint env v) s"

definition Logger_ErrorDepth :: "'a env \<Rightarrow> Logger \<Rightarrow> int \<Rightarrow> 'a list \<Rightarrow> process \<Rightarrow> process" where
  "Logger_ErrorDepth env l depth v s = Logger_output env l sError depth (Sprint env v) s"

definition Logger_Errorln :: "'a env \<Rightarrow> Logger \<Rightarrow> 'a list \<Rightarrow> process \<Rightarrow> process" where
  "Logger_Errorln env l v s = Logger_output env l sError 0 (Sprintln env v) s"

definition Logger_Errorf :: "'a env \<Rightarrow> Logger \<Rightarrow> string \<Rightarrow> 'a list \<Rightarrow> process \<Rightarrow> process" where
  "Logger_Errorf env l format v s = Logger_output env l sError 0 (Sprintf env format v) s"

definition os_Exit :: "int \<Rightarrow> process \<Rightarrow> outcome" where
  "os_Exit code s = Exited code s"

definition Logger_Fatal :: "'a env \<Rightarrow> Logger \<Rightarrow> 'a list \<Rightarrow> process \<Rightarrow> outcome" where
  "Logger_Fatal env l v s =
     (let s1 = Logger_output env l sFatal 0 (Sprint env v) s;
          s2 = Close env l s1
      in os_Exit 1 s2)"

definition Logger_FatalDepth :: "'a env \<Rightarrow> Logger \<Rightarrow> int \<Rightarrow> 'a list \<Rightarrow> process \<Rightarrow> outcome" where
  "Logger_FatalDepth env l depth v s =
     (let s1 = Logger_output env l sFatal depth (Sprint env v) s;
          s2 = Close env l s1
      in os_Exit 1 s2)"

definition Logger_Fatalln :: "'a env \<Rightarrow> Logger \<Rightarrow> 'a list \<Rightarrow> process \<Rightarrow> outcome" where
  "Logger_Fatalln env l v s =
     (let s1 = Logger_output env l sFatal 0 (Sprintln env v) s;
          s2 = Close env l s1
      in os_Exit 1 s2)"

definition Logger_Fatalf :: "'a env \<Rightarrow> Logger \<Rightarrow> string \<Rightarrow> 'a list \<Rightarrow> process \<Rightarrow> outcome" where
  "Logger_Fatalf env l format v s =
     (let s1 = Logger_output env l sFatal 0 (Sprintf env format v) s;
          s2 = Close env l s1
      in os_Exit 1 s2)"

text \<open>The package-level functions, on \<^verbatim>\<open>defaultLogger\<close>.\<close>

definition Close_default :: "'a env \<Rightarrow> process \<Rightarrow> process" where
  "Close_default env s = Close env (defaultLogger s) s"

definition Info :: "'a env \<Rightarrow> 'a list \<Rightarrow> process \<Rightarrow> process" where
  "Info env v s = Logger_output env (defaultLogger s) sInfo 0 (Sprint env v) s"

definition InfoDepth :: "'a env \<Rightarrow> int \<Rightarrow> 'a list \<Rightarrow> process \<Rightarrow> process" where
  "InfoDepth env depth v s = Logger_output env (defaultLogger s) sInfo depth (Sprint env v) s"

definition Infoln :: "'a env \<Rightarrow> 'a list \<Rightarrow> process \<Rightarrow> process" where
  "Infoln env v s = Logger_output env (defaultLogger s) sInfo 0 (Sprintln env v) s"

definition Infof :: "'a env \<Rightarrow> string \<Rightarrow> 'a list \<Rightarrow> process \<Rightarrow> process" where
  "Infof env format v s = Logger_output env (defaultLogger s) sInfo 0 (Sprintf env format v) s"

definition Warning :: "'a env \<Rightarrow> 'a list \<Rightarrow> process \<Rightarrow> process" where
  "Warning env v s = Logger_output env (defaultLogger s) sWarning 0 (Sprint env v) s"

definition WarningDepth :: "'a env \<Rightarrow> int \<Rightarrow> 'a list \<Rightarrow> process \<Rightarrow> process" where
  "WarningDepth env depth v s =
     Logger_output env (defaultLogger s) sWarning depth (Sprint env v) s"

definition Warningln :: "'a env \<Rightarrow> 'a list \<Rightarrow> process \<Rightarrow> process" where
  "Warningln env v s = Logger_output env (defaultLogger s) sWarning 0 (Sprintln env v) s"

definition Warningf :: "'a env \<Rightarrow> string \<Rightarrow> 'a list \<Rightarrow> process \<Rightarrow> process" where
  "Warningf env format v s =
     Logger_output env (defaultLogger s) sWarning 0 (Sprintf env format v) s"

definition Error :: "'a env \<Rightarrow> 'a list \<Rightarrow> process \<Rightarrow> process" where
  "Error env v s = Logger_output env (defaultLogger s) sError 0 (Sprint env v) s"

definition ErrorDepth :: "'a env \<Rightarrow> int \<Rightarrow> 'a list \<Rightarrow> process \<Rightarrow> process" where
  "ErrorDepth env depth v s = Logger_output env (defaultLogger s) sError depth (Sprint env v) s"

definition Errorln :: "'a env \<Rightarrow> 'a list \<Rightarrow> process \<Rightarrow> process" where
  "Errorln env v s = Logger_output env (defaultLogger s) sError 0 (Sprintln env v) s"

definition Errorf :: "'a env \<Rightarrow> string \<Rightarrow> 'a list \<Rightarrow> process \<Rightarrow> process" where
  "Errorf env format v s = Logger_output env (defaultLogger s) sError 0 (Sprintf env format v) s"

definition Fatal :: "'a env \<Rightarrow> 'a list \<Rightarrow> process \<Rightarrow> outcome" where
  "Fatal env v s =
     (let s1 = Logger_output env (defaultLogger s) sFatal 0 (Sprint env v) s;
          s2 = Close env (defaultLogger s1) s1
      in os_Exit 1 s2)"

definition FatalDepth :: "'a env \<Rightarrow> int \<Rightarrow> 'a list \<Rightarrow> process \<Rightarrow> outcome" where
  "FatalDepth env depth v s =
     (let s1 = Logger_output env (defaultLogger s) sFatal depth (Sprint env v) s;
          s2 = Close env (defaultLogger s1) s1
      in os_Exit 1 s2)"

definition Fatalln :: "'a env \<Rightarrow> 'a list \<Rightarrow> process \<Rightarrow> outcome" where
  "Fatalln env v s =
     (let s1 = Logger_output env (defaultLogger s) sFatal 0 (Sprintln env v) s;
          s2 = Close env (defaultLogger s1) s1
      in os_Exit 1 s2)"

definition Fatalf :: "'a env \<Rightarrow> string \<Rightarrow> 'a list \<Rightarrow> process \<Rightarrow> outcome" where
  "Fatalf env format v s =
     (let s1 = Logger_output env (defaultLogger s) sFatal 0 (Sprintf env format v) s;
          s2 = Close env (defaultLogger s1) s1
      in os_Exit 1 s2)"

section \<open>Package internal: the asynchronous sink and its WaitGroup (logger.go, 435-495)\<close>

text \<open>
  \<^verbatim>\<open>wg.Add\<close> and \<^verbatim>\<open>wg.Done\<close> change the counter; \<^verbatim>\<open>go func() {...}()\<close> adds a goroutine
  whose body is the list of calls it will make. A goroutine that panics makes no further
  call, and since nothing recovers, the process ends. A \<^verbatim>\<open>sync.WaitGroup\<close> panics when a
  \<^verbatim>\<open>Done\<close> would make its counter negative.
\<close>

definition panic :: "nat \<Rightarrow> process \<Rightarrow> process" where
  "panic g s = emit [PanicEv g] (s\<lparr>tasks := (tasks s)[g := []], crashed := True\<rparr>)"

definition wg_Add :: "int \<Rightarrow> process \<Rightarrow> process" where
  "wg_Add delta s = emit [AddEv delta] (s\<lparr>wg := wg s + delta\<rparr>)"

definition wg_Done :: "nat \<Rightarrow> process \<Rightarrow> process" where
  "wg_Done g s =
     (if wg s - 1 < 0 then panic g s else emit [DoneEv g] (s\<lparr>wg := wg s - 1\<rparr>))"

definition go :: "instr list \<Rightarrow> process \<Rightarrow> process" where
  "go body s = s\<lparr>tasks := tasks s @ [body]\<rparr>"

definition ConnectSentry :: "'a env \<Rightarrow> string \<Rightarrow> process \<Rightarrow> error option \<times> process" where
  "ConnectSentry env dsn s =
     (case sentry_Init env dsn of
        Some err \<Rightarrow> (Some err, s)
      | None \<Rightarrow> (None, s\<lparr>client := True, connected := True\<rparr>))"

text \<open>\<^verbatim>\<open>func (sn *snio) Write\<close> of package internal (logger.go, 463-476). The goroutine's
  closure refers to the slice \<^verbatim>\<open>p\<close> and converts it when it runs; \<^verbatim>\<open>wg.Done()\<close> is the last
  statement of the body and is not deferred.\<close>

definition internal_snio_Write ::
  "Level \<Rightarrow> string \<Rightarrow> process \<Rightarrow> (nat \<times> error option) \<times> process" where
  "internal_snio_Write level p s =
     ((0, None),
      if connected s then go [ICapture level (Slice p), IFlush, IDone] (wg_Add 1 s) else s)"

text \<open>\<^verbatim>\<open>func (sn *snio) Write\<close> of package remote (unnamed/part_000, 26-42), the earlier form
  of the same sink: the level comes from \<^verbatim>\<open>isErrLog\<close> and the goroutine does not flush.\<close>

definition remote_snio_Write ::
  "bool \<Rightarrow> string \<Rightarrow> process \<Rightarrow> (nat \<times> error option) \<times> process" where
  "remote_snio_Write isErrLog p s =
     ((0, None),
      if connected s
      then go [ICapture (if isErrLog then LevelError else LevelWarning) (Slice p), IDone]
             (wg_Add 1 s)
      else s)"

text \<open>
  One call of goroutine \<open>g\<close>: the runtime runs the next call of its body. A call into the
  backend returns or panics; a panic skips the rest of the body, \<^verbatim>\<open>wg.Done()\<close> included.
  Once the process has ended nothing runs.
\<close>

definition message :: "'a env \<Rightarrow> source \<Rightarrow> process \<Rightarrow> string" where
  "message env src s = (case src of Text m \<Rightarrow> m | Slice p \<Rightarrow> sliceContent env (trace s) p)"

fun exec :: "'a env \<Rightarrow> nat \<Rightarrow> instr \<Rightarrow> process \<Rightarrow> process" where
  "exec env g (ICapture level src) s =
     (if panics env (trace s) g then panic g s else capture env level (message env src s) s)"
| "exec env g IFlush s = (if panics env (trace s) g then panic g s else Flush s)"
| "exec env g IDone s = wg_Done g s"

definition step :: "'a env \<Rightarrow> nat \<Rightarrow> process \<Rightarrow> process" where
  "step env g s =
     (if crashed s then s
      else if g < length (tasks s)
      then (case tasks s ! g of
              [] \<Rightarrow> s
            | i # rest \<Rightarrow> exec env g i (s\<lparr>tasks := (tasks s)[g := rest]\<rparr>))
      else s)"

text \<open>
  \<^verbatim>\<open>wg.Wait()\<close> blocks the caller until the counter is zero. While it is blocked the runtime
  runs the goroutines in some order, \<open>sched\<close>; \<open>None\<close> means that the caller is still blocked
  when the schedule ends, or that the process has ended, so that the call never returns.
\<close>

fun Wait :: "'a env \<Rightarrow> nat list \<Rightarrow> process \<Rightarrow> process option" where
  "Wait env [] s = (if crashed s then None else if wg s = 0 then Some s else None)"
| "Wait env (g # gs) s =
     (if crashed s then None
      else if wg s = 0 then Some s
      else Wait env gs (step env g s))"

definition internal_Info :: "'a env \<Rightarrow> nat list \<Rightarrow> string \<Rightarrow> process \<Rightarrow> process option" where
  "internal_Info env sched text s =
     (if connected s
      then Wait env sched (go [ICapture LevelInfo (Text text), IFlush, IDone] (wg_Add 1 s))
      else Some s)"

section \<open>Rinfo and Rinfof\<close>

text \<open>unnamed/part_002: the local record through the default logger, then the remote
  delivery through package internal.\<close>

definition Rinfo :: "'a env \<Rightarrow> nat list \<Rightarrow> string \<Rightarrow> process \<Rightarrow> process option" where
  "Rinfo env sched a s =
     (let s1 = Logger_output env (defaultLogger s) sInfo 0 a s
      in internal_Info env sched a s1)"

definition Rinfof :: "'a env \<Rightarrow> nat list \<Rightarrow> string \<Rightarrow> 'a list \<Rightarrow> process \<Rightarrow> process option" where
  "Rinfof env sched a b s =
     (let t = Sprintf env a b;
          s1 = Logger_output env (defaultLogger s) sInfo 0 t s
      in internal_Info env sched a s1)"

text \<open>unnamed/part_001, the earlier form: \<^verbatim>\<open>Rinfo\<close> calls the package's \<^verbatim>\<open>Info(a)\<close> with the
  one string \<open>a\<close> (\<^verbatim>\<open>fmt.Sprint\<close> of a single string is that string), and \<^verbatim>\<open>Rinfof\<close> calls
  \<^verbatim>\<open>Rinfo\<close> on the formatted text.\<close>

definition Rinfo_1 :: "'a env \<Rightarrow> nat list \<Rightarrow> string \<Rightarrow> process \<Rightarrow> process option" where
  "Rinfo_1 env sched a s =
     (let s1 = Logger_output env (defaultLogger s) sInfo 0 a s
      in internal_Info env sched a s1)"

definition Rinfof_1 :: "'a env \<Rightarrow> nat list \<Rightarrow> string \<Rightarrow> 'a list \<Rightarrow> process \<Rightarrow> process option" where
  "Rinfof_1 env sched a b s = Rinfo_1 env sched (Sprintf env a b) s"

section \<open>A concrete environment\<close>

text \<open>
  \<^verbatim>\<open>fmt.Sprint\<close>, \<^verbatim>\<open>fmt.Sprintln\<close> and \<^verbatim>\<open>fmt.Sprintf\<close> on string operands: \<^verbatim>\<open>Sprint\<close>
  concatenates strings, \<^verbatim>\<open>Sprintln\<close> separates them by spaces and ends with a newline, and
  \<^verbatim>\<open>Sprintf\<close> is given for formats whose verbs are \<^verbatim>\<open>%s\<close> and \<^verbatim>\<open>%%\<close>.
\<close>

definition Sprint_strings :: "string list \<Rightarrow> string" where
  "Sprint_strings v = concat v"

fun Sprintln_strings :: "string list \<Rightarrow> string" where
  "Sprintln_strings [] = [newline]"
| "Sprintln_strings [a] = a @ [newline]"
| "Sprintln_strings (a # b # v) = a @ '' '' @ Sprintln_strings (b # v)"

fun Sprintf_strings :: "string \<Rightarrow> string list \<Rightarrow> string" where
  "Sprintf_strings (c1 # c2 # cs) v =
     (if c1 = CHR ''%'' \<and> c2 = CHR ''s''
      then (case v of
              [] \<Rightarrow> ''%!s(MISSING)'' @ Sprintf_strings cs []
            | a # v' \<Rightarrow> a @ Sprintf_strings cs v')
      else if c1 = CHR ''%'' \<and> c2 = CHR ''%''
      then CHR ''%'' # Sprintf_strings cs v
      else c1 # Sprintf_strings (c2 # cs) v)"
| "Sprintf_strings cs v = cs"

text \<open>An environment in which every write and every close succeeds, the backend accepts
  every message and every connection and never panics, a slice keeps its bytes, and every
  record gets the same header.\<close>

definition example_env :: "string env" where
  "example_env =
     \<lparr>Sprint = Sprint_strings,
      Sprintln = Sprintln_strings,
      Sprintf = Sprintf_strings,
      header = (\<lambda>tr flag calldepth. ''2024/01/02 03:04:05.000006 main.go:7: ''),
      writeRes = (\<lambda>tr w p. (length p, None)),
      closeRes = (\<lambda>tr c. None),
      isCloser = (\<lambda>n. True),
      captureRes = (\<lambda>tr level p. True),
      sentry_Init = (\<lambda>dsn. None),
      panics = (\<lambda>tr g. False),
      sliceContent = (\<lambda>tr p. p)\<rparr>"


section \<open>Reading a trace\<close>

text \<open>The events that happened between state \<open>s\<close> and a later state \<open>s'\<close>.\<close>

definition new_events :: "process \<Rightarrow> process \<Rightarrow> event list" where
  "new_events s s' = drop (length (trace s)) (trace s')"

text \<open>The closers whose \<^verbatim>\<open>Close\<close> was called, the failures among these calls, and the
  failures printed to standard error, each in order.\<close>

fun closed_in :: "event list \<Rightarrow> writer list" where
  "closed_in [] = []"
| "closed_in (CloseEv c r # es) = c # closed_in es"
| "closed_in (e # es) = closed_in es"

fun failed_in :: "event list \<Rightarrow> (writer \<times> error) list" where
  "failed_in [] = []"
| "failed_in (CloseEv c (Some err) # es) = (c, err) # failed_in es"
| "failed_in (e # es) = failed_in es"

fun reported_in :: "event list \<Rightarrow> (writer \<times> error) list" where
  "reported_in [] = []"
| "reported_in (FailedToCloseEv c err # es) = (c, err) # reported_in es"
| "reported_in (e # es) = reported_in es"

text \<open>The records handed to writer \<open>w\<close>, in order.\<close>

fun written_to :: "writer \<Rightarrow> event list \<Rightarrow> string list" where
  "written_to w [] = []"
| "written_to w (WriteEv w' p # es) =
     (if w' = w then p # written_to w es else written_to w es)"
| "written_to w (e # es) = written_to w es"

definition lock_event :: "event \<Rightarrow> bool" where
  "lock_event e = (e = LockEv \<or> e = UnlockEv)"

section \<open>Sequences of Init calls\<close>

type_synonym init_args = "string \<times> bool \<times> bool \<times> writer option"

fun Init_all :: "'a env \<Rightarrow> init_args list \<Rightarrow> process \<Rightarrow> Logger list \<times> process" where
  "Init_all env [] s = ([], s)"
| "Init_all env ((name, verbose, unused, logFile) # cs) s =
     (case Init env name verbose unused logFile s of
        (l, s1) \<Rightarrow> (case Init_all env cs s1 of (ls, s2) \<Rightarrow> (l # ls, s2)))"

text \<open>The Loggers that a sequence of \<^verbatim>\<open>Init\<close> calls generates when the first of them is
  allocated at address \<open>a\<close>.\<close>

fun new_Loggers :: "'a env \<Rightarrow> init_args list \<Rightarrow> nat \<Rightarrow> Logger list" where
  "new_Loggers env [] a = []"
| "new_Loggers env ((name, verbose, unused, logFile) # cs) a =
     new_Logger env verbose logFile a # new_Loggers env cs (Suc a)"

section \<open>Concrete loggers and a failing environment\<close>

definition ex_Logger :: Logger where
  "ex_Logger = fst (Init example_env ''app'' False False (Some (Ext 0)) boot)"

definition ex_state :: process where
  "ex_state = snd (Init example_env ''app'' False False (Some (Ext 0)) boot)"

text \<open>As \<open>example_env\<close>, but the caller's writer \<open>Ext 0\<close> fails on every write and on
  every close.\<close>

definition failing_env :: "string env" where
  "failing_env =
     example_env
       \<lparr>writeRes := (\<lambda>tr w p. if w = Ext 0 then (0, Some (Err ''no space left on device''))
                               else (length p, None)),
        closeRes := (\<lambda>tr c. if c = Ext 0 then Some (Err ''file already closed'') else None)\<rparr>"

section \<open>Events of the sinks and the lock\<close>

text \<open>The events a writer can cause: a write call, a capture, a flush.\<close>

fun sink_event :: "event \<Rightarrow> bool" where
  "sink_event (WriteEv w p) = True"
| "sink_event (CaptureEv level p ok) = True"
| "sink_event (FlushEv t) = True"
| "sink_event e = False"

text \<open>For every call into the remote backend (capture or flush) in a trace, in order:
  whether the shared lock was held when it was made; \<open>h\<close> tells whether the lock is held
  at the start of the trace.\<close>

fun remote_held :: "bool \<Rightarrow> event list \<Rightarrow> bool list" where
  "remote_held h [] = []"
| "remote_held h (LockEv # es) = remote_held True es"
| "remote_held h (UnlockEv # es) = remote_held False es"
| "remote_held h (CaptureEv level p ok # es) = h # remote_held h es"
| "remote_held h (FlushEv t # es) = h # remote_held h es"
| "remote_held h (e # es) = remote_held h es"

text \<open>The \<^verbatim>\<open>*log.Logger\<close> that \<^verbatim>\<open>output\<close> selects for a severity.\<close>

definition sev_log :: "Logger \<Rightarrow> severity \<Rightarrow> log_Logger" where
  "sev_log l sv =
     (case sv of
        sInfo \<Rightarrow> infoLog l
      | sWarning \<Rightarrow> warningLog l
      | sError \<Rightarrow> errorLog l
      | sFatal \<Rightarrow> fatalLog l)"

text \<open>What \<^verbatim>\<open>makeLog\<close> chooses for a severity: the tag, the standard stream that verbose mode
  adds, and the level of the package's sink that \<^verbatim>\<open>Init\<close> passes for it.\<close>

definition sev_tag :: "severity \<Rightarrow> string" where
  "sev_tag sv =
     (case sv of sInfo \<Rightarrow> tagInfo | sWarning \<Rightarrow> tagWarning
               | sError \<Rightarrow> tagError | sFatal \<Rightarrow> tagFatal)"

definition sev_stream :: "severity \<Rightarrow> writer" where
  "sev_stream sv =
     (case sv of sInfo \<Rightarrow> Stdout | sWarning \<Rightarrow> Stdout
               | sError \<Rightarrow> Stderr | sFatal \<Rightarrow> Stderr)"

definition sev_level :: "severity \<Rightarrow> Level" where
  "sev_level sv =
     (case sv of sInfo \<Rightarrow> LevelInfo | sWarning \<Rightarrow> LevelWarning
               | sError \<Rightarrow> LevelError | sFatal \<Rightarrow> LevelFatal)"

definition local_writers :: "bool \<Rightarrow> writer option \<Rightarrow> severity \<Rightarrow> writer list" where
  "local_writers verbose logFile sv =
     (case logFile of None \<Rightarrow> [] | Some f \<Rightarrow> [f]) @ (if verbose then [sev_stream sv] else [])"

text \<open>The events of one \<^verbatim>\<open>Write\<close> of the package's sink after the call itself: nothing without
  a client, else the capture and, at the fatal level, the flush.\<close>

definition snio_events :: "'a env \<Rightarrow> Level \<Rightarrow> string \<Rightarrow> event list \<Rightarrow> bool \<Rightarrow> event list" where
  "snio_events env level p tr has_client =
     (if has_client
      then CaptureEv level p (captureRes env tr level p) #
           (if level = LevelFatal then [FlushEv flashTimeout] else [])
      else [])"

fun is_Snio :: "writer \<Rightarrow> bool" where
  "is_Snio (Snio level) = True"
| "is_Snio w = False"

text \<open>The state of \<open>ex_state\<close> after a successful \<^verbatim>\<open>ConnectSentry\<close>.\<close>

definition ex_connected :: process where
  "ex_connected = snd (ConnectSentry example_env ''https://key@sentry.example/1'' ex_state)"

text \<open>The write calls in a trace, in order: the writer and the bytes it was handed.\<close>

fun write_calls :: "event list \<Rightarrow> (writer \<times> string) list" where
  "write_calls [] = []"
| "write_calls (WriteEv w p # es) = (w, p) # write_calls es"
| "write_calls (e # es) = write_calls es"

section \<open>Goroutines and the WaitGroup\<close>

text \<open>A goroutine is pending while it still has its \<^verbatim>\<open>wg.Done()\<close> to call; the deliveries
  in flight are the pending goroutines.\<close>

definition pending :: "instr list \<Rightarrow> bool" where
  "pending t = (IDone \<in> set t)"

definition in_flight :: "process \<Rightarrow> nat" where
  "in_flight s = length (filter pending (tasks s))"

definition all_done :: "process \<Rightarrow> bool" where
  "all_done s = list_all (\<lambda>t. t = []) (tasks s)"

text \<open>The increments of the counter and the goroutines that decremented it, in order.\<close>

fun adds :: "event list \<Rightarrow> int list" where
  "adds [] = []"
| "adds (AddEv d # es) = d # adds es"
| "adds (e # es) = adds es"

fun done_ids :: "event list \<Rightarrow> nat list" where
  "done_ids [] = []"
| "done_ids (DoneEv g # es) = g # done_ids es"
| "done_ids (e # es) = done_ids es"

text \<open>
  What can happen around the asynchronous sinks: the caller writes to the sink of package
  internal or to the sink of package remote, or the runtime lets goroutine \<open>g\<close> make its
  next call.
\<close>

datatype action = CallWrite Level string | CallRemoteWrite bool string | Run nat

fun act :: "'a env \<Rightarrow> action \<Rightarrow> process \<Rightarrow> process" where
  "act env (CallWrite level p) s = snd (internal_snio_Write level p s)"
| "act env (CallRemoteWrite isErrLog p) s = snd (remote_snio_Write isErrLog p s)"
| "act env (Run g) s = step env g s"

text \<open>A sequence of such actions; nothing happens any more once the process has ended.\<close>

fun run :: "'a env \<Rightarrow> action list \<Rightarrow> process \<Rightarrow> process" where
  "run env [] s = s"
| "run env (a # acts) s = (if crashed s then s else run env acts (act env a s))"

fun writes :: "action list \<Rightarrow> nat" where
  "writes [] = 0"
| "writes (Run g # acts) = writes acts"
| "writes (a # acts) = Suc (writes acts)"

text \<open>A goroutine body of the sinks, or what is left of it: \<^verbatim>\<open>wg.Done()\<close> is its last call
  and occurs once.\<close>

fun wf_task :: "instr list \<Rightarrow> bool" where
  "wf_task [] = True"
| "wf_task [i] = (i = IDone)"
| "wf_task (i # t) = (i \<noteq> IDone \<and> wf_task t)"

text \<open>The counter equals the number of pending goroutines, it was incremented once per
  goroutine, and the goroutines that called \<^verbatim>\<open>wg.Done()\<close> are exactly the finished ones,
  each once.\<close>

definition balanced :: "process \<Rightarrow> bool" where
  "balanced s =
     (wg s = int (in_flight s) \<and>
      list_all wf_task (tasks s) \<and>
      adds (trace s) = replicate (length (tasks s)) 1 \<and>
      distinct (done_ids (trace s)) \<and>
      set (done_ids (trace s)) =
        set (filter (\<lambda>g. \<not> pending (tasks s ! g)) [0..<length (tasks s)]))"

text \<open>An environment whose backend refuses every message, and one whose backend panics on
  every call a goroutine makes.\<close>

definition refusing_env :: "string env" where
  "refusing_env = example_env\<lparr>captureRes := (\<lambda>tr level p. False)\<rparr>"

definition panicking_env :: "string env" where
  "panicking_env = example_env\<lparr>panics := (\<lambda>tr g. True)\<rparr>"

text \<open>A schedule that lets every goroutine make all the calls it has left, one goroutine
  after the other.\<close>

definition drain :: "process \<Rightarrow> nat list" where
  "drain s = concat (map (\<lambda>g. replicate (length (tasks s ! g)) g) [0..<length (tasks s)])"

text \<open>Two writes, each followed by one call of its goroutine.\<close>

definition ex_acts :: "action list" where
  "ex_acts = [CallWrite LevelError ''a'', Run 0, CallRemoteWrite True ''b'', Run 1]"

section \<open>Calls other than ConnectSentry\<close>

text \<open>What a program can do with the package apart from connecting the backend: call
  \<^verbatim>\<open>Init\<close>, log through the default logger, close it, set its flags, write to one of the
  three sinks, and have the runtime run a goroutine. The calls are composed as they are,
  also from a state in which the process has ended; the states that a process reaches
  while it lives are among those that these sequences reach.\<close>

datatype call =
    DoInit string bool bool "writer option"
  | DoLog severity int string
  | DoClose
  | DoSetFlags int
  | DoWrite Level string
  | DoInternalWrite Level string
  | DoRemoteWrite bool string
  | DoRun nat

fun perform :: "'a env \<Rightarrow> call \<Rightarrow> process \<Rightarrow> process" where
  "perform env (DoInit name verbose unused logFile) s =
     snd (Init env name verbose unused logFile s)"
| "perform env (DoLog sv depth txt) s = Logger_output env (defaultLogger s) sv depth txt s"
| "perform env DoClose s = Close_default env s"
| "perform env (DoSetFlags flag) s = SetFlags flag s"
| "perform env (DoWrite level p) s = snd (snio_Write env level p s)"
| "perform env (DoInternalWrite level p) s = snd (internal_snio_Write level p s)"
| "perform env (DoRemoteWrite isErrLog p) s = snd (remote_snio_Write isErrLog p s)"
| "perform env (DoRun g) s = step env g s"

fun perform_all :: "'a env \<Rightarrow> call list \<Rightarrow> process \<Rightarrow> process" where
  "perform_all env [] s = s"
| "perform_all env (c # cs) s = perform_all env cs (perform env c s)"

text \<open>The record that \<^verbatim>\<open>output\<close> lets the \<^verbatim>\<open>*log.Logger\<close> of the severity format for a call made
  in state \<open>s\<close>: its prefix, its flags at that moment, and the header taken once the lock
  is held.\<close>

definition out_record :: "'a env \<Rightarrow> Logger \<Rightarrow> severity \<Rightarrow> int \<Rightarrow> string \<Rightarrow> process \<Rightarrow> string" where
  "out_record env l sv depth txt s =
     format_record env (flag_of s (addr l) sv) (log_prefix (sev_log l sv))
       (trace s @ [LockEv]) (3 + depth) txt"

text \<open>\<^verbatim>\<open>SetFlags\<close> sets the flags of the info and warning logs of the default logger only
  (the lines for the two other logs are commented out in the source), and \<^verbatim>\<open>Init\<close> gives
  a new Logger the flags \<^verbatim>\<open>Ldate|Lmicroseconds|Lshortfile\<close>: the error and fatal logs keep
  these flags whatever is called.\<close>

definition std_flags :: "process \<Rightarrow> nat \<Rightarrow> bool" where
  "std_flags s a = (flag_of s a sError = flags \<and> flag_of s a sFatal = flags)"

section \<open>The remote sinks report a count of zero\<close>

lemma writer_Write_Snio_eq:
  "writer_Write env (Snio level) p s =
     ((0, None),
      if client s then sentryOutput env p level (emit [WriteEv (Snio level) p] s)
      else emit [WriteEv (Snio level) p] s)"
  by (simp add: writer_Write_def snio_Write_def Let_def emit_def)

lemma multiWriter_snio_last:
  "p \<noteq> [] \<Longrightarrow> snd (fst (multiWriter_Write env (ws @ [Snio level]) p s)) \<noteq> None"
proof (induction ws arbitrary: s)
  case Nil
  then show ?case by (simp add: writer_Write_Snio_eq)
next
  case (Cons w ws)
  then show ?case by (simp split: prod.splits)
qed

lemma boot_fields:
  "\<not> client boot" "\<not> connected boot" "wg boot = 0" "tasks boot = []" "trace boot = []"
  by (simp_all add: boot_def initialize_def)

text \<open>
  C10. Whatever the bytes and whatever the state, each of the three \<^verbatim>\<open>snio.Write\<close> methods
  (package logger, package internal, package remote) returns the count 0 and a nil error;
  so an \<^verbatim>\<open>io.MultiWriter\<close> whose last writer is such a sink never reports success for a
  non-empty record: it returns an error, \<^verbatim>\<open>io.ErrShortWrite\<close> when the sink is reached.
\<close>

theorem snio_Write_reports_zero:
  "fst (snio_Write env level p s) = (0, None) \<and>
   fst (internal_snio_Write level p s) = (0, None) \<and>
   fst (remote_snio_Write isErrLog p s) = (0, None) \<and>
   fst (multiWriter_Write env [Snio level] p s) =
     (0, if p = [] then None else Some ErrShortWrite) \<and>
   (p \<noteq> [] \<longrightarrow> snd (fst (multiWriter_Write env (ws @ [Snio level]) p s)) \<noteq> None)"
  by (simp add: snio_Write_def internal_snio_Write_def remote_snio_Write_def
      multiWriter_snio_last writer_Write_Snio_eq)

theorem snio_Write_reports_zero_witness:
  "fst (snio_Write example_env LevelInfo ''x'' boot) = (0, None) \<and>
   fst (internal_snio_Write LevelInfo ''x'' boot) = (0, None) \<and>
   fst (remote_snio_Write False ''x'' boot) = (0, None) \<and>
   fst (multiWriter_Write example_env [Snio LevelInfo] ''x'' boot) = (0, Some ErrShortWrite) \<and>
   ''x'' \<noteq> [] \<and>
   snd (fst (multiWriter_Write example_env ([Stdout] @ [Snio LevelInfo]) ''x'' boot)) \<noteq> None"
  using snio_Write_reports_zero [of example_env LevelInfo "''x''" boot False "[Stdout]"]
  by simp

section \<open>Traces of Close and Init\<close>

lemma emit_emit: "emit b (emit a s) = emit (a @ b) s"
  by (simp add: emit_def)

lemma emit_Nil: "emit [] s = s"
  by (simp add: emit_def)

lemma trace_emit: "trace (emit evs s) = trace s @ evs"
  by (simp add: emit_def)

lemma new_events_emit: "new_events s (emit evs s) = evs"
  by (simp add: new_events_def emit_def)

lemma closed_in_append: "closed_in (xs @ ys) = closed_in xs @ closed_in ys"
  by (induction xs rule: closed_in.induct) simp_all

lemma failed_in_append: "failed_in (xs @ ys) = failed_in xs @ failed_in ys"
  by (induction xs rule: failed_in.induct) simp_all

lemma reported_in_append: "reported_in (xs @ ys) = reported_in xs @ reported_in ys"
  by (induction xs rule: reported_in.induct) simp_all

lemma closer_Close_eq:
  "closer_Close env c s =
     (case c of
        Snio level \<Rightarrow> (None, emit [FlushEv flashTimeout, CloseEv c None] s)
      | _ \<Rightarrow> (closeRes env (trace s) c, emit [CloseEv c (closeRes env (trace s) c)] s))"
  by (simp add: closer_Close_def snio_Close_def Flush_def emit_emit split: writer.splits)

lemma close_all_events:
  "\<exists>evs. close_all env cs s = emit evs s \<and> closed_in evs = cs \<and>
         failed_in evs = reported_in evs \<and> \<not> list_ex lock_event evs"
proof (induction cs arbitrary: s)
  case Nil
  have "close_all env [] s = emit [] s" by (simp add: emit_Nil)
  then show ?case by fastforce
next
  case (Cons c cs)
  obtain blk where blk: "close_all env (c # cs) s = close_all env cs (emit blk s)"
    "closed_in blk = [c]" "failed_in blk = reported_in blk" "\<not> list_ex lock_event blk"
    by (cases c; cases "closeRes env (trace s) c")
       (auto simp add: closer_Close_eq emit_emit lock_event_def)
  from Cons.IH [of "emit blk s"] obtain evs where evs:
    "close_all env cs (emit blk s) = emit evs (emit blk s)" "closed_in evs = cs"
    "failed_in evs = reported_in evs" "\<not> list_ex lock_event evs"
    by blast
  have "close_all env (c # cs) s = emit (blk @ evs) s"
    using blk(1) evs(1) by (simp add: emit_emit)
  moreover have "closed_in (blk @ evs) = c # cs"
    using blk(2) evs(2) by (simp add: closed_in_append)
  moreover have "failed_in (blk @ evs) = reported_in (blk @ evs)"
    using blk(3) evs(3) by (simp add: failed_in_append reported_in_append)
  moreover have "\<not> list_ex lock_event (blk @ evs)"
    using blk(4) evs(4) by simp
  ultimately show ?case by blast
qed

lemma Close_eq:
  "Close env l s =
     (if initialized l then Unlock (close_all env (closers l) (Lock s))
      else emit [LockEv, UnlockEv] s)"
  by (simp add: Close_def Let_def Lock_def Unlock_def emit_emit)

lemma closed_in_new_events_Close:
  "closed_in (new_events s (Close env l s)) = (if initialized l then closers l else [])"
proof -
  obtain evs where evs:
    "close_all env (closers l) (Lock s) = emit evs (Lock s)" "closed_in evs = closers l"
    using close_all_events [of env "closers l" "Lock s"] by blast
  have "initialized l \<Longrightarrow> Close env l s = emit (LockEv # evs @ [UnlockEv]) s"
    using evs(1) by (simp add: Close_eq Lock_def Unlock_def emit_emit)
  then show ?thesis
    using evs(2) by (simp add: Close_eq new_events_emit closed_in_append)
qed

lemma Init_eq:
  "Init env name verbose unused logFile s =
     (new_Logger env verbose logFile (heap_top s),
      emit [LockEv, UnlockEv]
        (s\<lparr>heap_top := Suc (heap_top s),
           flag_of := (flag_of s)(heap_top s := (\<lambda>sv. flags)),
           defaultLogger := (if initialized (defaultLogger s) then defaultLogger s
                             else new_Logger env verbose logFile (heap_top s))\<rparr>))"
  by (simp add: Init_def Let_def Lock_def Unlock_def emit_def)

lemma ex_Logger_fields:
  "initialized ex_Logger" "closers ex_Logger = [Snio LevelFatal, Ext 0]"
  by (simp_all add: ex_Logger_def Init_eq new_Logger_def sentryFatalLog_def is_Closer_def
      example_env_def)

section \<open>Close closes every registered closer\<close>

text \<open>
  C6. \<^verbatim>\<open>Close()\<close> takes the shared lock and releases it on return. On a Logger that was never
  initialized it does nothing else. Otherwise it calls \<^verbatim>\<open>Close\<close> on every entry of the
  closer registry, in the registry's order, whatever the individual results are; every
  failure is printed to standard error (the printed failures are exactly the failed calls,
  in order), and \<^verbatim>\<open>Close()\<close> itself always returns: it only adds events to the trace.
\<close>

theorem Close_closes_all:
  "(\<not> initialized l \<longrightarrow> Close env l s = emit [LockEv, UnlockEv] s) \<and>
   (initialized l \<longrightarrow>
      (\<exists>evs. Close env l s = emit (LockEv # evs @ [UnlockEv]) s \<and>
             closed_in evs = closers l \<and>
             reported_in evs = failed_in evs \<and>
             \<not> list_ex lock_event evs))"
proof -
  obtain evs where evs:
    "close_all env (closers l) (Lock s) = emit evs (Lock s)" "closed_in evs = closers l"
    "failed_in evs = reported_in evs" "\<not> list_ex lock_event evs"
    using close_all_events [of env "closers l" "Lock s"] by blast
  have "initialized l \<Longrightarrow> Close env l s = emit (LockEv # evs @ [UnlockEv]) s"
    using evs(1) by (simp add: Close_eq Lock_def Unlock_def emit_emit)
  with evs(2-4) show ?thesis
    by (auto simp add: Close_eq)
qed

theorem Close_closes_all_witness:
  "\<not> initialized (fallback_Logger 0) \<and>
   Close failing_env (fallback_Logger 0) boot = emit [LockEv, UnlockEv] boot \<and>
   initialized ex_Logger \<and>
   (\<exists>evs. Close failing_env ex_Logger ex_state = emit (LockEv # evs @ [UnlockEv]) ex_state \<and>
          closed_in evs = [Snio LevelFatal, Ext 0] \<and>
          reported_in evs = failed_in evs \<and>
          \<not> list_ex lock_event evs) \<and>
   Close failing_env ex_Logger ex_state =
     emit [LockEv, FlushEv 3, CloseEv (Snio LevelFatal) None,
           CloseEv (Ext 0) (Some (Err ''file already closed'')),
           FailedToCloseEv (Ext 0) (Err ''file already closed''), UnlockEv] ex_state"
proof -
  have "Close failing_env ex_Logger ex_state =
     emit [LockEv, FlushEv 3, CloseEv (Snio LevelFatal) None,
           CloseEv (Ext 0) (Some (Err ''file already closed'')),
           FailedToCloseEv (Ext 0) (Err ''file already closed''), UnlockEv] ex_state"
    by (simp add: Close_eq ex_Logger_fields closer_Close_eq Lock_def Unlock_def emit_emit
        failing_env_def example_env_def flashTimeout_def)
  then show ?thesis
    using Close_closes_all [of "fallback_Logger 0" failing_env boot]
      Close_closes_all [of ex_Logger failing_env ex_state]
    by (simp add: ex_Logger_fields fallback_Logger_def)
qed

section \<open>A second Close closes the registry again\<close>

text \<open>
  C3, as the code has it. \<^verbatim>\<open>Close()\<close> keeps no record of having run: the Logger has no closed
  state and \<^verbatim>\<open>Close()\<close> changes no field of it. On an initialized Logger a second \<^verbatim>\<open>Close()\<close>
  therefore calls \<^verbatim>\<open>Close\<close> on every registered closer again, in order; only on a Logger that
  was never initialized does each call do nothing but take and release the lock.
\<close>

theorem Close_again_closes_again:
  "(initialized l \<longrightarrow>
      closed_in (new_events (Close env l s) (Close env l (Close env l s))) = closers l) \<and>
   (\<not> initialized l \<longrightarrow>
      Close env l (Close env l s) = emit [LockEv, UnlockEv, LockEv, UnlockEv] s)"
  by (simp add: closed_in_new_events_Close) (simp add: Close_eq emit_emit)

text \<open>The Logger of \<^verbatim>\<open>Init("app", false, false, f)\<close> with a closable \<open>f\<close>: the second \<^verbatim>\<open>Close()\<close>
  flushes the backend and closes \<open>f\<close> once more, so the state after two calls differs from
  the state after one.\<close>

theorem Close_twice_counterexample:
  "closed_in (new_events (Close example_env ex_Logger ex_state)
     (Close example_env ex_Logger (Close example_env ex_Logger ex_state))) =
     [Snio LevelFatal, Ext 0] \<and>
   Close example_env ex_Logger (Close example_env ex_Logger ex_state) \<noteq>
     Close example_env ex_Logger ex_state"
proof -
  have a: "closed_in (new_events (Close example_env ex_Logger ex_state)
     (Close example_env ex_Logger (Close example_env ex_Logger ex_state))) =
     [Snio LevelFatal, Ext 0]"
    by (simp add: closed_in_new_events_Close ex_Logger_fields)
  have "new_events (Close example_env ex_Logger ex_state)
     (Close example_env ex_Logger ex_state) = []"
    by (simp add: new_events_def)
  with a show ?thesis by auto
qed

theorem Close_again_closes_again_witness:
  "initialized ex_Logger \<and>
   closed_in (new_events (Close example_env ex_Logger ex_state)
     (Close example_env ex_Logger (Close example_env ex_Logger ex_state))) =
     [Snio LevelFatal, Ext 0] \<and>
   \<not> initialized (fallback_Logger 0) \<and>
   Close example_env (fallback_Logger 0) (Close example_env (fallback_Logger 0) boot) =
     emit [LockEv, UnlockEv, LockEv, UnlockEv] boot"
  using Close_again_closes_again [of ex_Logger example_env ex_state]
    Close_again_closes_again [of "fallback_Logger 0" example_env boot]
  by (simp add: ex_Logger_fields fallback_Logger_def)

section \<open>Init and sequences of Init calls\<close>

lemma Init_all_Cons:
  "Init_all env ((name, verbose, unused, logFile) # cs) s =
     (fst (Init env name verbose unused logFile s) #
        fst (Init_all env cs (snd (Init env name verbose unused logFile s))),
      snd (Init_all env cs (snd (Init env name verbose unused logFile s))))"
  by (simp split: prod.splits)

lemma fst_Init: "fst (Init env name verbose unused logFile s) = new_Logger env verbose logFile (heap_top s)"
  by (simp add: Init_eq)

lemma heap_top_Init: "heap_top (snd (Init env name verbose unused logFile s)) = Suc (heap_top s)"
  by (simp add: Init_eq emit_def)

lemma default_Init:
  "defaultLogger (snd (Init env name verbose unused logFile s)) =
     (if initialized (defaultLogger s) then defaultLogger s
      else new_Logger env verbose logFile (heap_top s))"
  by (simp add: Init_eq emit_def)

lemma fst_Init_all: "fst (Init_all env cs s) = new_Loggers env cs (heap_top s)"
proof (induction cs arbitrary: s)
  case Nil
  show ?case by simp
next
  case (Cons c cs)
  obtain name verbose unused logFile where c: "c = (name, verbose, unused, logFile)"
    by (cases c) auto
  have "fst (Init_all env cs (snd (Init env name verbose unused logFile s))) =
        new_Loggers env cs (Suc (heap_top s))"
    using Cons.IH [of "snd (Init env name verbose unused logFile s)"]
    by (simp add: heap_top_Init)
  then show ?case
    unfolding c by (simp only: Init_all_Cons fst_conv fst_Init new_Loggers.simps)
qed

lemma addr_new_Loggers: "map addr (new_Loggers env cs a) = [a..<a + length cs]"
  by (induction env cs a rule: new_Loggers.induct)
     (auto simp add: new_Logger_def upt_rec)

lemma default_Init_all_kept:
  "initialized (defaultLogger s) \<Longrightarrow> defaultLogger (snd (Init_all env cs s)) = defaultLogger s"
proof (induction cs arbitrary: s)
  case Nil
  show ?case by simp
next
  case (Cons c cs)
  obtain name verbose unused logFile where c: "c = (name, verbose, unused, logFile)"
    by (cases c) auto
  let ?s1 = "snd (Init env name verbose unused logFile s)"
  have d: "defaultLogger ?s1 = defaultLogger s"
    using Cons.prems by (simp add: default_Init)
  then have "defaultLogger (snd (Init_all env cs ?s1)) = defaultLogger ?s1"
    using Cons.IH [of ?s1] Cons.prems by simp
  with d show ?case
    unfolding c by (simp only: Init_all_Cons snd_conv)
qed

lemma default_Init_all_first:
  assumes "\<not> initialized (defaultLogger s)"
  shows "defaultLogger (snd (Init_all env ((name, verbose, unused, logFile) # cs) s)) =
         fst (Init env name verbose unused logFile s)"
proof -
  let ?s1 = "snd (Init env name verbose unused logFile s)"
  have d: "defaultLogger ?s1 = new_Logger env verbose logFile (heap_top s)"
    using assms by (simp add: default_Init)
  then have "initialized (defaultLogger ?s1)" by (simp add: new_Logger_def)
  from default_Init_all_kept [OF this, of env cs] d show ?thesis
    by (simp only: Init_all_Cons snd_conv fst_Init)
qed

section \<open>The trace of a logging call\<close>

lemma writer_Write_Snio_events:
  "writer_Write env (Snio level) p s =
     ((0, None),
      emit (WriteEv (Snio level) p #
            snio_events env level p (trace s @ [WriteEv (Snio level) p]) (client s)) s)"
  by (simp add: writer_Write_Snio_eq sentryOutput_def capture_def Flush_def snio_events_def
      emit_def Let_def)

lemma writer_Write_local:
  "\<not> is_Snio w \<Longrightarrow>
   writer_Write env w p s = (writeRes env (trace s) w p, emit [WriteEv w p] s)"
  by (cases w) (simp_all add: writer_Write_def Let_def)

lemma sink_event_snio_events: "list_all sink_event (snio_events env level p tr c)"
  by (simp add: snio_events_def)

lemma write_calls_append: "write_calls (xs @ ys) = write_calls xs @ write_calls ys"
  by (induction xs rule: write_calls.induct) simp_all

lemma write_calls_snio_events: "write_calls (snio_events env level p tr c) = []"
  by (simp add: snio_events_def)

lemma writer_Write_sink_events:
  "\<exists>evs. snd (writer_Write env w p s) = emit (WriteEv w p # evs) s \<and>
         list_all sink_event evs \<and> write_calls evs = []"
proof (cases "is_Snio w")
  case True
  then obtain level where "w = Snio level" by (cases w) auto
  then have "snd (writer_Write env w p s) =
      emit (WriteEv w p # snio_events env level p (trace s @ [WriteEv w p]) (client s)) s"
    by (simp add: writer_Write_Snio_events)
  with sink_event_snio_events write_calls_snio_events show ?thesis by blast
next
  case False
  then have "snd (writer_Write env w p s) = emit (WriteEv w p # []) s"
    by (simp add: writer_Write_local)
  then show ?thesis by fastforce
qed

text \<open>An \<^verbatim>\<open>io.MultiWriter\<close> hands the bytes, once each and in order, to a prefix of its
  writers; the prefix is not empty when there is a writer.\<close>

lemma multiWriter_prefix:
  "\<exists>evs k. snd (multiWriter_Write env ws p s) = emit evs s \<and> list_all sink_event evs \<and>
           k \<le> length ws \<and> (ws = [] \<or> 0 < k) \<and>
           write_calls evs = map (\<lambda>w. (w, p)) (take k ws)"
proof (induction ws arbitrary: s)
  case Nil
  have "snd (multiWriter_Write env [] p s) = emit [] s" by (simp add: emit_Nil)
  then show ?case by fastforce
next
  case (Cons w ws)
  obtain e1 where e1: "snd (writer_Write env w p s) = emit (WriteEv w p # e1) s"
    "list_all sink_event e1" "write_calls e1 = []"
    using writer_Write_sink_events by blast
  obtain e2 k where e2: "snd (multiWriter_Write env ws p (emit (WriteEv w p # e1) s)) =
      emit e2 (emit (WriteEv w p # e1) s)" "list_all sink_event e2"
      "k \<le> length ws" "write_calls e2 = map (\<lambda>w. (w, p)) (take k ws)"
    using Cons.IH by blast
  have stop: "list_all sink_event (WriteEv w p # e1)"
    "write_calls (WriteEv w p # e1) = map (\<lambda>w. (w, p)) (take (Suc 0) (w # ws))"
    using e1(2,3) by simp_all
  have cont: "emit e2 (emit (WriteEv w p # e1) s) = emit ((WriteEv w p # e1) @ e2) s"
    "list_all sink_event ((WriteEv w p # e1) @ e2)"
    "write_calls ((WriteEv w p # e1) @ e2) = map (\<lambda>w. (w, p)) (take (Suc k) (w # ws))"
    using e1(2,3) e2(2,4) by (simp_all add: emit_emit write_calls_append)
  obtain n err s1 where r: "writer_Write env w p s = ((n, err), s1)"
    by (cases "writer_Write env w p s") auto
  with e1(1) have s1: "s1 = emit (WriteEv w p # e1) s" by simp
  show ?case
  proof (cases "err \<noteq> None \<or> n \<noteq> length p")
    case True
    then have "snd (multiWriter_Write env (w # ws) p s) = emit (WriteEv w p # e1) s"
      using r s1 by auto
    moreover have "Suc 0 \<le> length (w # ws)" "w # ws = [] \<or> 0 < Suc 0" by simp_all
    ultimately show ?thesis using stop by blast
  next
    case False
    then have "snd (multiWriter_Write env (w # ws) p s) = emit ((WriteEv w p # e1) @ e2) s"
      using r s1 e2(1) cont(1) by simp
    moreover have "Suc k \<le> length (w # ws)" "w # ws = [] \<or> 0 < Suc k" using e2(3) by simp_all
    ultimately show ?thesis using cont(2,3) by blast
  qed
qed

lemma multiWriter_sink_events:
  "\<exists>evs. snd (multiWriter_Write env ws p s) = emit evs s \<and> list_all sink_event evs"
  using multiWriter_prefix [of env ws p s] by blast

lemma io_Write_sink_events:
  "\<exists>evs. snd (io_Write env out p s) = emit evs s \<and> list_all sink_event evs"
proof (cases out)
  case (Single w)
  obtain e1 where "snd (writer_Write env w p s) = emit (WriteEv w p # e1) s"
    "list_all sink_event e1"
    using writer_Write_sink_events by blast
  then have "snd (io_Write env out p s) = emit (WriteEv w p # e1) s \<and>
             list_all sink_event (WriteEv w p # e1)"
    using Single by (simp add: io_Write_def)
  then show ?thesis by blast
next
  case (MultiWriter ws)
  then show ?thesis using multiWriter_sink_events [of env ws p s] by (simp add: io_Write_def)
qed

lemma Logger_output_eq:
  "Logger_output env l sv depth txt s =
     Unlock (snd (io_Write env (log_out (sev_log l sv)) (out_record env l sv depth txt s)
        (Lock s)))"
  by (cases sv)
     (simp_all add: Logger_output_def out_record_def sev_log_def log_Output_def Let_def Lock_def
       emit_def split: prod.splits)

lemma remote_held_sink_events:
  "list_all sink_event evs \<Longrightarrow> False \<notin> set (remote_held True (evs @ [UnlockEv]))"
proof (induction evs)
  case Nil
  show ?case by simp
next
  case (Cons e evs)
  then show ?case by (cases e) simp_all
qed

lemma Logger_output_sink_events:
  "\<exists>evs. Logger_output env l sv depth txt s = emit (LockEv # evs @ [UnlockEv]) s \<and>
         list_all sink_event evs"
proof -
  obtain evs where
    "snd (io_Write env (log_out (sev_log l sv)) (out_record env l sv depth txt s) (Lock s)) =
       emit evs (Lock s)"
    "list_all sink_event evs"
    using io_Write_sink_events by blast
  then have "Logger_output env l sv depth txt s = emit (LockEv # evs @ [UnlockEv]) s \<and>
             list_all sink_event evs"
    by (simp add: Logger_output_eq Lock_def Unlock_def emit_emit)
  then show ?thesis by blast
qed

lemma format_record_nonempty: "format_record env flag prefix tr calldepth txt \<noteq> []"
  by (simp add: format_record_def)

lemma out_record_nonempty: "out_record env l sv depth txt s \<noteq> []"
  by (simp add: out_record_def format_record_nonempty)

lemma sev_log_new_Logger:
  "sev_log (new_Logger env verbose logFile a) sv =
     log_New (MultiWriter (local_writers verbose logFile sv @ [Snio (sev_level sv)])) (sev_tag sv)"
  by (cases sv)
     (simp_all add: sev_log_def new_Logger_def makeLog_def local_writers_def sev_level_def
       sev_tag_def sev_stream_def sentryInfoLog_def sentryWarnLog_def sentryErrorLog_def
       sentryFatalLog_def)

lemma out_record_new_Logger:
  "out_record env (new_Logger env verbose logFile a) sv depth txt s =
     format_record env (flag_of s a sv) (sev_tag sv) (trace s @ [LockEv]) (3 + depth) txt"
  by (simp add: out_record_def sev_log_new_Logger log_New_def) (simp add: new_Logger_def)

lemma multiWriter_accepting:
  assumes "\<forall>w\<in>set ws. \<not> is_Snio w"
    and "\<forall>tr. \<forall>w\<in>set ws. writeRes env tr w p = (length p, None)"
  shows "multiWriter_Write env (ws @ rest) p s =
         multiWriter_Write env rest p (emit (map (\<lambda>w. WriteEv w p) ws) s)"
  using assms
proof (induction ws arbitrary: s)
  case Nil
  show ?case by (simp add: emit_Nil)
next
  case (Cons w ws)
  have w: "writer_Write env w p s = ((length p, None), emit [WriteEv w p] s)"
    using Cons.prems by (simp add: writer_Write_local)
  have "multiWriter_Write env (ws @ rest) p (emit [WriteEv w p] s) =
        multiWriter_Write env rest p (emit (map (\<lambda>w. WriteEv w p) ws) (emit [WriteEv w p] s))"
    using Cons.IH [of "emit [WriteEv w p] s"] Cons.prems by simp
  then show ?case using w by (simp add: emit_emit)
qed

lemma multiWriter_Snio_only:
  "multiWriter_Write env [Snio level] p s =
     ((0, if p = [] then None else Some ErrShortWrite),
      emit (WriteEv (Snio level) p #
            snio_events env level p (trace s @ [WriteEv (Snio level) p]) (client s)) s)"
  by (simp add: writer_Write_Snio_events)

lemma Logger_output_wrap:
  assumes "snd (multiWriter_Write env ws (out_record env l sv depth txt s) (Lock s)) =
             emit evs (Lock s)"
    and "log_out (sev_log l sv) = MultiWriter ws"
  shows "Logger_output env l sv depth txt s = emit (LockEv # evs @ [UnlockEv]) s"
  using assms
  by (simp add: Logger_output_eq io_Write_def Unlock_def emit_emit
      del: multiWriter_Write.simps)
     (simp add: Lock_def emit_emit)

lemma log_out_new_Logger:
  "log_out (sev_log (new_Logger env verbose logFile a) sv) =
     MultiWriter (local_writers verbose logFile sv @ [Snio (sev_level sv)])"
  by (simp add: sev_log_new_Logger log_New_def)

lemma multiWriter_all_accepting:
  assumes "\<forall>w\<in>set ws. \<not> is_Snio w"
    and "\<forall>tr w. writeRes env tr w p = (length p, None)"
  shows "snd (multiWriter_Write env (ws @ [Snio level]) p s) =
     emit (map (\<lambda>w. WriteEv w p) (ws @ [Snio level]) @
           snio_events env level p (trace s @ map (\<lambda>w. WriteEv w p) (ws @ [Snio level]))
             (client s)) s"
proof -
  let ?s1 = "emit (map (\<lambda>w. WriteEv w p) ws) s"
  have "multiWriter_Write env (ws @ [Snio level]) p s = multiWriter_Write env [Snio level] p ?s1"
    using assms by (intro multiWriter_accepting) auto
  then have "snd (multiWriter_Write env (ws @ [Snio level]) p s) =
        emit (WriteEv (Snio level) p #
              snio_events env level p (trace ?s1 @ [WriteEv (Snio level) p]) (client ?s1)) ?s1"
    by (simp only: multiWriter_Snio_only snd_conv)
  moreover have "trace ?s1 = trace s @ map (\<lambda>w. WriteEv w p) ws" "client ?s1 = client s"
    by (simp_all add: emit_def)
  ultimately show ?thesis by (simp add: emit_emit)
qed

lemma local_writers_not_Snio:
  "\<forall>level. logFile \<noteq> Some (Snio level) \<Longrightarrow>
   \<forall>w\<in>set (local_writers verbose logFile sv). \<not> is_Snio w"
  by (cases logFile; cases sv) (auto simp add: local_writers_def sev_stream_def elim: is_Snio.elims)

lemma Logger_output_accepting:
  assumes "\<forall>level. logFile \<noteq> Some (Snio level)"
    and "\<forall>tr w. writeRes env tr w
           (out_record env (new_Logger env verbose logFile a) sv depth txt s) =
           (length (out_record env (new_Logger env verbose logFile a) sv depth txt s), None)"
  shows "Logger_output env (new_Logger env verbose logFile a) sv depth txt s =
     emit (LockEv #
           map (\<lambda>w. WriteEv w (out_record env (new_Logger env verbose logFile a) sv depth txt s))
             (local_writers verbose logFile sv @ [Snio (sev_level sv)]) @
           snio_events env (sev_level sv)
             (out_record env (new_Logger env verbose logFile a) sv depth txt s)
             (trace s @ LockEv #
              map (\<lambda>w. WriteEv w
                     (out_record env (new_Logger env verbose logFile a) sv depth txt s))
                (local_writers verbose logFile sv @ [Snio (sev_level sv)]))
             (client s) @
           [UnlockEv]) s"
proof -
  let ?rec = "out_record env (new_Logger env verbose logFile a) sv depth txt s"
  let ?ws = "local_writers verbose logFile sv"
  have "snd (multiWriter_Write env (?ws @ [Snio (sev_level sv)]) ?rec (Lock s)) =
     emit (map (\<lambda>w. WriteEv w ?rec) (?ws @ [Snio (sev_level sv)]) @
           snio_events env (sev_level sv) ?rec
             (trace (Lock s) @ map (\<lambda>w. WriteEv w ?rec) (?ws @ [Snio (sev_level sv)]))
             (client (Lock s))) (Lock s)"
    using local_writers_not_Snio [OF assms(1)] assms(2) by (rule multiWriter_all_accepting)
  from Logger_output_wrap [OF this log_out_new_Logger]
  show ?thesis by (simp add: Lock_def emit_def)
qed

lemma written_to_append: "written_to w (xs @ ys) = written_to w xs @ written_to w ys"
  by (induction w xs rule: written_to.induct) simp_all

lemma written_to_snio_events: "written_to w (snio_events env level p tr c) = []"
  by (simp add: snio_events_def)

lemma multiWriter_quiet:
  assumes "p \<noteq> []"
  shows "\<exists>evs. snd (multiWriter_Write env [f, Snio LevelInfo] p s) = emit (WriteEv f p # evs) s \<and>
     written_to f evs = [] \<and> written_to Stdout evs = []"
proof (cases "is_Snio f")
  case True
  then obtain level where f: "f = Snio level" by (cases f) auto
  have "snd (multiWriter_Write env [f, Snio LevelInfo] p s) =
     emit (WriteEv f p # snio_events env level p (trace s @ [WriteEv f p]) (client s)) s"
    using assms by (simp add: f writer_Write_Snio_events)
  then show ?thesis using written_to_snio_events by blast
next
  case False
  note w = writer_Write_local [OF False, of env p s]
  let ?s1 = "emit [WriteEv f p] s"
  let ?tail = "WriteEv (Snio LevelInfo) p #
     snio_events env LevelInfo p (trace ?s1 @ [WriteEv (Snio LevelInfo) p]) (client ?s1)"
  obtain n err where r: "writeRes env (trace s) f p = (n, err)"
    by (cases "writeRes env (trace s) f p") auto
  show ?thesis
  proof (cases "err = None \<and> n = length p")
    case True
    have "snd (multiWriter_Write env [f, Snio LevelInfo] p s) = emit (WriteEv f p # ?tail) s"
      using assms True r by (simp add: w writer_Write_Snio_events emit_emit)
    moreover have "written_to f ?tail = []" "written_to Stdout ?tail = []"
      using False by (auto simp add: written_to_snio_events)
    ultimately show ?thesis by blast
  next
    case no: False
    then have "snd (multiWriter_Write env [f, Snio LevelInfo] p s) = emit (WriteEv f p # []) s"
      using r by (auto simp add: w)
    then show ?thesis by fastforce
  qed
qed

lemma multiWriter_verbose:
  assumes "p \<noteq> []" and "f \<noteq> Stdout"
  shows "\<exists>evs. snd (multiWriter_Write env [f, Stdout, Snio LevelInfo] p s) =
       emit (WriteEv f p # evs) s \<and>
     written_to f evs = [] \<and>
     written_to Stdout evs =
       (if fst (writer_Write env f p s) = (length p, None) then [p] else [])"
proof (cases "is_Snio f")
  case True
  then obtain level where f: "f = Snio level" by (cases f) auto
  have "snd (multiWriter_Write env [f, Stdout, Snio LevelInfo] p s) =
     emit (WriteEv f p # snio_events env level p (trace s @ [WriteEv f p]) (client s)) s"
    using assms(1) by (simp add: f writer_Write_Snio_events)
  moreover have "fst (writer_Write env f p s) \<noteq> (length p, None)"
    using assms(1) by (simp add: f writer_Write_Snio_events)
  ultimately show ?thesis using written_to_snio_events by fastforce
next
  case False
  note w = writer_Write_local [OF False, of env p s]
  let ?s1 = "emit [WriteEv f p] s"
  have w2: "writer_Write env Stdout p ?s1 =
        (writeRes env (trace ?s1) Stdout p, emit [WriteEv Stdout p] ?s1)"
    by (simp add: writer_Write_local)
  let ?s2 = "emit [WriteEv Stdout p] ?s1"
  let ?tail = "WriteEv (Snio LevelInfo) p #
       snio_events env LevelInfo p (trace ?s2 @ [WriteEv (Snio LevelInfo) p]) (client ?s2)"
  obtain n err where r: "writeRes env (trace s) f p = (n, err)"
    by (cases "writeRes env (trace s) f p") auto
  obtain n2 err2 where r2: "writeRes env (trace ?s1) Stdout p = (n2, err2)"
    by (cases "writeRes env (trace ?s1) Stdout p") auto
  show ?thesis
  proof (cases "err = None \<and> n = length p")
    case ok: True
    then have acc: "fst (writer_Write env f p s) = (length p, None)" using r by (simp add: w)
    show ?thesis
    proof (cases "err2 = None \<and> n2 = length p")
      case True
      have "snd (multiWriter_Write env [f, Stdout, Snio LevelInfo] p s) =
         emit (WriteEv f p # (WriteEv Stdout p # ?tail)) s"
        using assms(1) True ok r r2 by (simp add: w w2 writer_Write_Snio_events emit_emit)
      moreover have "written_to f (WriteEv Stdout p # ?tail) = []"
        "written_to Stdout (WriteEv Stdout p # ?tail) = [p]"
        using False assms(2) by (auto simp add: written_to_snio_events)
      ultimately show ?thesis using acc by fastforce
    next
      case False
      then have "snd (multiWriter_Write env [f, Stdout, Snio LevelInfo] p s) =
         emit (WriteEv f p # [WriteEv Stdout p]) s"
        using ok r r2 by (auto simp add: w w2 emit_emit)
      moreover have "written_to f [WriteEv Stdout p] = []"
        "written_to Stdout [WriteEv Stdout p] = [p]"
        using assms(2) by auto
      ultimately show ?thesis using acc by fastforce
    qed
  next
    case no: False
    then have nacc: "fst (writer_Write env f p s) \<noteq> (length p, None)" using r by (auto simp add: w)
    from no have "snd (multiWriter_Write env [f, Stdout, Snio LevelInfo] p s) =
         emit (WriteEv f p # []) s"
      using r by (auto simp add: w)
    then show ?thesis using nacc by fastforce
  qed
qed

lemma log_out_Info_quiet:
  "log_out (sev_log (new_Logger env False (Some f) a) sInfo) = MultiWriter [f, Snio LevelInfo]"
  by (simp add: log_out_new_Logger local_writers_def sev_level_def)

lemma log_out_Info_verbose:
  "log_out (sev_log (new_Logger env True (Some f) a) sInfo) =
     MultiWriter [f, Stdout, Snio LevelInfo]"
  by (simp add: log_out_new_Logger local_writers_def sev_level_def sev_stream_def)

lemma Logger_output_quiet:
  "\<exists>evs. Logger_output env (new_Logger env False (Some f) a) sInfo depth txt s =
       emit (LockEv #
             WriteEv f (out_record env (new_Logger env False (Some f) a) sInfo depth txt s) #
             evs @ [UnlockEv]) s \<and>
     written_to f evs = [] \<and> written_to Stdout evs = []"
proof -
  let ?l = "new_Logger env False (Some f) a"
  let ?rec = "out_record env ?l sInfo depth txt s"
  obtain evs where evs:
    "snd (multiWriter_Write env [f, Snio LevelInfo] ?rec (Lock s)) =
       emit (WriteEv f ?rec # evs) (Lock s)"
    "written_to f evs = []" "written_to Stdout evs = []"
    using multiWriter_quiet [where p = ?rec and env = env and f = f and s = "Lock s",
        OF out_record_nonempty]
    by blast
  from Logger_output_wrap [OF evs(1) log_out_Info_quiet]
  have "Logger_output env ?l sInfo depth txt s =
     emit (LockEv # WriteEv f ?rec # evs @ [UnlockEv]) s"
    by simp
  with evs(2,3) show ?thesis by blast
qed

lemma Logger_output_verbose:
  assumes "f \<noteq> Stdout"
  shows "\<exists>evs. Logger_output env (new_Logger env True (Some f) a) sInfo depth txt s =
       emit (LockEv #
             WriteEv f (out_record env (new_Logger env True (Some f) a) sInfo depth txt s) #
             evs @ [UnlockEv]) s \<and>
     written_to f evs = [] \<and>
     written_to Stdout evs =
       (if fst (writer_Write env f
                  (out_record env (new_Logger env True (Some f) a) sInfo depth txt s) (Lock s)) =
           (length (out_record env (new_Logger env True (Some f) a) sInfo depth txt s), None)
        then [out_record env (new_Logger env True (Some f) a) sInfo depth txt s] else [])"
proof -
  let ?l = "new_Logger env True (Some f) a"
  let ?rec = "out_record env ?l sInfo depth txt s"
  obtain evs where evs:
    "snd (multiWriter_Write env [f, Stdout, Snio LevelInfo] ?rec (Lock s)) =
       emit (WriteEv f ?rec # evs) (Lock s)"
    "written_to f evs = []"
    "written_to Stdout evs =
       (if fst (writer_Write env f ?rec (Lock s)) = (length ?rec, None) then [?rec] else [])"
    using multiWriter_verbose [where p = ?rec and env = env and f = f and s = "Lock s",
        OF out_record_nonempty assms]
    by blast
  from Logger_output_wrap [OF evs(1) log_out_Info_verbose]
  have "Logger_output env ?l sInfo depth txt s =
     emit (LockEv # WriteEv f ?rec # evs @ [UnlockEv]) s"
    by simp
  with evs(2,3) show ?thesis by blast
qed

lemma writer_Write_example:
  "\<not> is_Snio w \<Longrightarrow> fst (writer_Write example_env w p s) = (length p, None)"
  "\<not> is_Snio w \<Longrightarrow> snd (writer_Write example_env w p s) = emit [WriteEv w p] s"
  by (simp_all add: writer_Write_local example_env_def)

lemma Logger_Info_eq: "Logger_Info env l v s = Logger_output env l sInfo 0 (Sprint env v) s"
  by (simp add: Logger_Info_def)

lemma emit_fields:
  "tasks (emit evs s) = tasks s" "wg (emit evs s) = wg s" "client (emit evs s) = client s"
  "connected (emit evs s) = connected s" "defaultLogger (emit evs s) = defaultLogger s"
  "heap_top (emit evs s) = heap_top s"
  by (simp_all add: emit_def)

lemma ex_Logger_eq: "ex_Logger = new_Logger example_env False (Some (Ext 0)) (heap_top boot)"
  by (simp add: ex_Logger_def fst_Init)

lemma ex_connected_fields:
  "client ex_connected" "connected ex_connected" "tasks ex_connected = []" "wg ex_connected = 0"
  "defaultLogger ex_connected = ex_Logger"
  by (simp_all add: ex_connected_def ConnectSentry_def example_env_def ex_state_def ex_Logger_def
      Init_eq emit_def boot_def initialize_def fallback_Logger_def)

lemma writeRes_example: "writeRes example_env tr w p = (length p, None)"
  by (simp add: example_env_def)

lemma flag_of_example:
  "flag_of boot a sv = flags" "flag_of ex_state a sv = flags" "flag_of ex_connected a sv = flags"
  by (simp_all add: ex_connected_def ConnectSentry_def example_env_def ex_state_def
      Init_eq emit_def boot_def initialize_def)

lemma flags_no_Lmsgprefix: "flags AND Lmsgprefix = 0"
  by (simp add: flags_def Ldate_def Lmicroseconds_def Lshortfile_def Lmsgprefix_def)

lemma format_record_flags:
  "format_record env flags prefix tr calldepth txt =
     prefix @ header env tr flags calldepth @ txt @
     (if txt = [] \<or> last txt \<noteq> newline then [newline] else [])"
  by (simp add: format_record_def flags_no_Lmsgprefix)

section \<open>Verbose mode and the log file\<close>

text \<open>
  C9, as the code has it. Every Info-level call (\<^verbatim>\<open>Info\<close>, \<^verbatim>\<open>InfoDepth\<close>, \<^verbatim>\<open>Infoln\<close>,
  \<^verbatim>\<open>Infof\<close>) is \<^verbatim>\<open>output(sInfo, depth, text)\<close>. For a Logger built by \<^verbatim>\<open>Init\<close> with a non-nil
  \<^verbatim>\<open>logFile\<close> that is not the standard output itself, the call formats one record (tag
  \<^verbatim>\<open>INFO : \<close>, header, text, newline, arranged by the Logger's Info flags of the moment).
  With \<^verbatim>\<open>verbose=false\<close> the record is handed once to \<^verbatim>\<open>logFile\<close> and nothing is handed to
  standard output. With \<^verbatim>\<open>verbose=true\<close> the record is handed once to \<^verbatim>\<open>logFile\<close>, whatever
  \<^verbatim>\<open>logFile\<close> does with it, and it is handed to standard output, once, exactly when
  \<^verbatim>\<open>logFile\<close>'s \<^verbatim>\<open>Write\<close> accepts it (returns its length and no error); otherwise standard
  output gets nothing.
\<close>

theorem Info_reaches_logFile_and_stdout:
  assumes "f \<noteq> Stdout"
    and "lq = fst (Init env name False unused (Some f) s0)"
    and "lv = fst (Init env name True unused (Some f) s0)"
    and "rec = format_record env (flag_of s (heap_top s0) sInfo) tagInfo (trace s @ [LockEv])
                 (3 + depth) txt"
  shows
  "Logger_Info env l v s = Logger_output env l sInfo 0 (Sprint env v) s \<and>
   Logger_InfoDepth env l depth v s = Logger_output env l sInfo depth (Sprint env v) s \<and>
   Logger_Infoln env l v s = Logger_output env l sInfo 0 (Sprintln env v) s \<and>
   Logger_Infof env l format v s = Logger_output env l sInfo 0 (Sprintf env format v) s \<and>
   written_to f (new_events s (Logger_output env lq sInfo depth txt s)) = [rec] \<and>
   written_to Stdout (new_events s (Logger_output env lq sInfo depth txt s)) = [] \<and>
   written_to f (new_events s (Logger_output env lv sInfo depth txt s)) = [rec] \<and>
   written_to Stdout (new_events s (Logger_output env lv sInfo depth txt s)) =
     (if fst (writer_Write env f rec (Lock s)) = (length rec, None) then [rec] else [])"
proof -
  have entry: "Logger_Info env l v s = Logger_output env l sInfo 0 (Sprint env v) s \<and>
   Logger_InfoDepth env l depth v s = Logger_output env l sInfo depth (Sprint env v) s \<and>
   Logger_Infoln env l v s = Logger_output env l sInfo 0 (Sprintln env v) s \<and>
   Logger_Infof env l format v s = Logger_output env l sInfo 0 (Sprintf env format v) s"
    by (simp add: Logger_Info_def Logger_InfoDepth_def Logger_Infoln_def Logger_Infof_def)
  have lq: "lq = new_Logger env False (Some f) (heap_top s0)"
    and lv: "lv = new_Logger env True (Some f) (heap_top s0)"
    using assms(2,3) by (simp_all add: fst_Init)
  have recq: "out_record env lq sInfo depth txt s = rec"
    and recv: "out_record env lv sInfo depth txt s = rec"
    using assms(4) by (simp_all add: lq lv out_record_new_Logger sev_tag_def)
  obtain evs where q:
    "Logger_output env lq sInfo depth txt s = emit (LockEv # WriteEv f rec # evs @ [UnlockEv]) s"
    "written_to f evs = []" "written_to Stdout evs = []"
    using Logger_output_quiet [of env f "heap_top s0" depth "txt" s] recq
    unfolding lq by auto
  have quiet: "written_to f (new_events s (Logger_output env lq sInfo depth txt s)) = [rec] \<and>
     written_to Stdout (new_events s (Logger_output env lq sInfo depth txt s)) = []"
    using q assms(1) by (simp add: new_events_emit written_to_append)
  obtain evs' where v:
    "Logger_output env lv sInfo depth txt s = emit (LockEv # WriteEv f rec # evs' @ [UnlockEv]) s"
    "written_to f evs' = []"
    "written_to Stdout evs' =
       (if fst (writer_Write env f rec (Lock s)) = (length rec, None) then [rec] else [])"
    using Logger_output_verbose [OF assms(1), of env "heap_top s0" depth "txt" s] recv
    unfolding lv by auto
  have verbose: "written_to f (new_events s (Logger_output env lv sInfo depth txt s)) = [rec] \<and>
     written_to Stdout (new_events s (Logger_output env lv sInfo depth txt s)) =
       (if fst (writer_Write env f rec (Lock s)) = (length rec, None) then [rec] else [])"
    using v assms(1) by (simp add: new_events_emit written_to_append)
  from entry quiet verbose show ?thesis by blast
qed

theorem Info_reaches_logFile_and_stdout_witness:
  "Ext 0 \<noteq> Stdout \<and>
   written_to (Ext 0) (new_events ex_state
      (Logger_output example_env (fst (Init example_env ''app'' False False (Some (Ext 0)) boot))
         sInfo 0 ''x'' ex_state)) =
     [''INFO : 2024/01/02 03:04:05.000006 main.go:7: x'' @ [newline]] \<and>
   written_to Stdout (new_events ex_state
      (Logger_output example_env (fst (Init example_env ''app'' False False (Some (Ext 0)) boot))
         sInfo 0 ''x'' ex_state)) = [] \<and>
   written_to (Ext 0) (new_events ex_state
      (Logger_output example_env (fst (Init example_env ''app'' True False (Some (Ext 0)) boot))
         sInfo 0 ''x'' ex_state)) =
     [''INFO : 2024/01/02 03:04:05.000006 main.go:7: x'' @ [newline]] \<and>
   written_to Stdout (new_events ex_state
      (Logger_output example_env (fst (Init example_env ''app'' True False (Some (Ext 0)) boot))
         sInfo 0 ''x'' ex_state)) =
     [''INFO : 2024/01/02 03:04:05.000006 main.go:7: x'' @ [newline]]"
proof -
  have rec: "format_record example_env (flag_of ex_state (heap_top boot) sInfo) tagInfo
               (trace ex_state @ [LockEv]) (3 + 0) ''x'' =
             ''INFO : 2024/01/02 03:04:05.000006 main.go:7: x'' @ [newline]"
    by (simp add: flag_of_example format_record_flags tagInfo_def newline_def)
       (simp add: example_env_def)
  show ?thesis
    using Info_reaches_logFile_and_stdout [where f = "Ext 0" and env = example_env
        and lq = "fst (Init example_env ''app'' False False (Some (Ext 0)) boot)"
        and lv = "fst (Init example_env ''app'' True False (Some (Ext 0)) boot)"
        and name = "''app''" and unused = False and ?s0.0 = boot
        and s = ex_state and depth = 0 and ?txt = "''x''",
        OF _ refl refl refl]
    unfolding rec by (simp add: writer_Write_example)
qed

text \<open>Two inputs at which the statement without these provisos fails: with \<^verbatim>\<open>logFile\<close> being
  \<^verbatim>\<open>os.Stdout\<close> and \<^verbatim>\<open>verbose=false\<close> the record does reach standard output; with
  \<^verbatim>\<open>verbose=true\<close> and a \<^verbatim>\<open>logFile\<close> whose \<^verbatim>\<open>Write\<close> fails, the \<^verbatim>\<open>io.MultiWriter\<close> stops at
  \<^verbatim>\<open>logFile\<close> and standard output gets nothing.\<close>

theorem verbose_flag_counterexample:
  "written_to Stdout (new_events boot
      (Logger_Info example_env (fst (Init example_env ''app'' False False (Some Stdout) boot))
         [''x''] boot)) \<noteq> [] \<and>
   written_to Stdout (new_events boot
      (Logger_Info failing_env (fst (Init failing_env ''app'' True False (Some (Ext 0)) boot))
         [''x''] boot)) = []"
proof -
  have a: "written_to Stdout (new_events boot
      (Logger_Info example_env (fst (Init example_env ''app'' False False (Some Stdout) boot))
         [''x''] boot)) \<noteq> []"
    using Logger_output_quiet [of example_env Stdout "heap_top boot" 0 "Sprint example_env [''x'']" boot]
    by (auto simp add: Logger_Info_eq fst_Init new_events_emit)
  have w: "\<And>p s. writer_Write failing_env (Ext 0) p s =
      ((0, Some (Err ''no space left on device'')), emit [WriteEv (Ext 0) p] s)"
    by (simp add: writer_Write_local) (simp add: failing_env_def)
  obtain evs where v:
    "Logger_output failing_env (new_Logger failing_env True (Some (Ext 0)) (heap_top boot)) sInfo 0
       (Sprint failing_env [''x'']) boot =
     emit (LockEv # WriteEv (Ext 0) (out_record failing_env
        (new_Logger failing_env True (Some (Ext 0)) (heap_top boot)) sInfo 0
        (Sprint failing_env [''x'']) boot) # evs @ [UnlockEv]) boot"
    "written_to Stdout evs = []"
    using Logger_output_verbose [of "Ext 0" failing_env "heap_top boot" 0
        "Sprint failing_env [''x'']" boot]
    by (auto simp add: w out_record_nonempty)
  then have b: "written_to Stdout (new_events boot
      (Logger_Info failing_env (fst (Init failing_env ''app'' True False (Some (Ext 0)) boot))
         [''x''] boot)) = []"
    by (simp add: Logger_Info_eq fst_Init new_events_emit written_to_append)
  from a b show ?thesis by simp
qed

section \<open>The lock is held while the sink captures\<close>

text \<open>
  C2, as the code has it. A call of \<^verbatim>\<open>Logger.output\<close>, on any Logger at any severity, takes
  the shared lock first and releases it last; between the two \<^verbatim>\<open>log.Logger.Output\<close> hands the
  record to the writers of the severity, and every call into the remote backend that the
  call makes happens there, in the caller, with the lock held. \<^verbatim>\<open>Logger.output\<close> starts no
  goroutine and leaves the WaitGroup alone. For a Logger built by \<^verbatim>\<open>Init\<close> whose \<^verbatim>\<open>logFile\<close> is
  not itself a sink of the package, when a client is connected and every local writer
  accepts the record (returns its length and no error): the call hands the record to each
  local writer and to the sink, and the sink captures it at the severity's level (and, at
  the fatal level, flushes with the 3 second bound) before the lock is released.
\<close>

theorem Logger_output_remote_under_lock:
  "(\<exists>evs. Logger_output env l sv depth txt s = emit (LockEv # evs @ [UnlockEv]) s \<and>
          list_all sink_event evs \<and>
          False \<notin> set (remote_held False (LockEv # evs @ [UnlockEv]))) \<and>
   tasks (Logger_output env l sv depth txt s) = tasks s \<and>
   wg (Logger_output env l sv depth txt s) = wg s \<and>
   (client s \<and> (\<forall>level. logFile \<noteq> Some (Snio level)) \<and>
    (\<forall>tr w. writeRes env tr w
        (format_record env (flag_of s a sv) (sev_tag sv) (trace s @ [LockEv]) (3 + depth) txt) =
        (length (format_record env (flag_of s a sv) (sev_tag sv) (trace s @ [LockEv])
                   (3 + depth) txt), None)) \<longrightarrow>
    (\<exists>ok. new_events s
        (Logger_output env (new_Logger env verbose logFile a) sv depth txt s) =
      LockEv #
      map (\<lambda>w. WriteEv w (format_record env (flag_of s a sv) (sev_tag sv) (trace s @ [LockEv])
                             (3 + depth) txt))
        (local_writers verbose logFile sv @ [Snio (sev_level sv)]) @
      CaptureEv (sev_level sv)
        (format_record env (flag_of s a sv) (sev_tag sv) (trace s @ [LockEv]) (3 + depth) txt)
        ok #
      (if sv = sFatal then [FlushEv flashTimeout] else []) @ [UnlockEv]))"
proof -
  obtain evs where evs: "Logger_output env l sv depth txt s = emit (LockEv # evs @ [UnlockEv]) s"
    "list_all sink_event evs"
    using Logger_output_sink_events by blast
  have held: "False \<notin> set (remote_held False (LockEv # evs @ [UnlockEv]))"
    using remote_held_sink_events [OF evs(2)] by simp
  have frame: "tasks (Logger_output env l sv depth txt s) = tasks s"
    "wg (Logger_output env l sv depth txt s) = wg s"
    using evs(1) by (simp_all add: emit_def)
  have fatal: "(sev_level sv = LevelFatal) = (sv = sFatal)"
    by (cases sv) (simp_all add: sev_level_def)
  let ?rec = "format_record env (flag_of s a sv) (sev_tag sv) (trace s @ [LockEv]) (3 + depth) txt"
  have exact: "\<exists>ok. new_events s
        (Logger_output env (new_Logger env verbose logFile a) sv depth txt s) =
      LockEv # map (\<lambda>w. WriteEv w ?rec) (local_writers verbose logFile sv @ [Snio (sev_level sv)]) @
      CaptureEv (sev_level sv) ?rec ok #
      (if sv = sFatal then [FlushEv flashTimeout] else []) @ [UnlockEv]"
    if "client s" "\<forall>level. logFile \<noteq> Some (Snio level)"
      "\<forall>tr w. writeRes env tr w ?rec = (length ?rec, None)"
  proof -
    have "\<forall>tr w. writeRes env tr w
           (out_record env (new_Logger env verbose logFile a) sv depth txt s) =
           (length (out_record env (new_Logger env verbose logFile a) sv depth txt s), None)"
      unfolding out_record_new_Logger by (rule that(3))
    from Logger_output_accepting [OF that(2) this] that(1) show ?thesis
      by (simp add: out_record_new_Logger new_events_emit snio_events_def fatal)
  qed
  from evs held frame exact show ?thesis by blast
qed

theorem Logger_output_remote_under_lock_witness:
  "client ex_connected \<and>
   (\<forall>level. Some (Ext 0) \<noteq> Some (Snio level)) \<and>
   (\<forall>tr w. writeRes example_env tr w
        (''FATAL: 2024/01/02 03:04:05.000006 main.go:7: x'' @ [newline]) =
        (length (''FATAL: 2024/01/02 03:04:05.000006 main.go:7: x'' @ [newline]), None)) \<and>
   (\<exists>ok. new_events ex_connected
        (Logger_output example_env (new_Logger example_env True (Some (Ext 0)) 1) sFatal 0 ''x''
           ex_connected) =
      LockEv #
      map (\<lambda>w. WriteEv w (''FATAL: 2024/01/02 03:04:05.000006 main.go:7: x'' @ [newline]))
        [Ext 0, Stderr, Snio LevelFatal] @
      CaptureEv LevelFatal (''FATAL: 2024/01/02 03:04:05.000006 main.go:7: x'' @ [newline]) ok #
      [FlushEv flashTimeout, UnlockEv])"
proof -
  have rec: "format_record example_env (flag_of ex_connected 1 sFatal) (sev_tag sFatal)
               (trace ex_connected @ [LockEv]) (3 + 0) ''x'' =
             ''FATAL: 2024/01/02 03:04:05.000006 main.go:7: x'' @ [newline]"
    by (simp add: flag_of_example format_record_flags sev_tag_def tagFatal_def newline_def)
       (simp add: example_env_def)
  show ?thesis
    using Logger_output_remote_under_lock [where s = ex_connected and logFile = "Some (Ext 0)"
        and env = example_env and sv = sFatal and depth = 0 and ?txt = "''x''" and verbose = True
        and a = 1]
    unfolding rec
    by (simp add: ex_connected_fields writeRes_example local_writers_def sev_stream_def
        sev_level_def)
qed

text \<open>\<^verbatim>\<open>Error("boom")\<close> on a Logger of \<^verbatim>\<open>Init\<close> with a connected client: the one call into the
  backend is made with the lock held, and no goroutine exists afterwards.\<close>

theorem lock_held_during_capture_counterexample:
  "remote_held False (new_events ex_connected
      (Logger_Error example_env ex_Logger [''boom''] ex_connected)) = [True] \<and>
   tasks (Logger_Error example_env ex_Logger [''boom''] ex_connected) = []"
proof -
  let ?l = "new_Logger example_env False (Some (Ext 0)) (heap_top boot)"
  let ?rec = "out_record example_env ?l sError 0 (Sprint example_env [''boom'']) ex_connected"
  have "Logger_Error example_env ex_Logger [''boom''] ex_connected =
        Logger_output example_env ?l sError 0 (Sprint example_env [''boom'']) ex_connected"
    by (simp add: Logger_Error_def ex_Logger_eq)
  also have "\<dots> = emit (LockEv #
           map (\<lambda>w. WriteEv w ?rec)
             (local_writers False (Some (Ext 0)) sError @ [Snio (sev_level sError)]) @
           snio_events example_env (sev_level sError) ?rec
             (trace ex_connected @ LockEv #
              map (\<lambda>w. WriteEv w ?rec)
                (local_writers False (Some (Ext 0)) sError @ [Snio (sev_level sError)]))
             (client ex_connected) @
           [UnlockEv]) ex_connected"
    by (rule Logger_output_accepting) (simp_all add: writeRes_example)
  finally show ?thesis
    by (simp add: new_events_emit local_writers_def snio_events_def sev_level_def
        ex_connected_fields emit_fields)
qed

section \<open>What a step of a goroutine leaves alone\<close>

lemma emit_flag_of:
  "flag_of (emit evs s) = flag_of s" "heap_top (emit evs s) = heap_top s"
  "crashed (emit evs s) = crashed s"
  by (simp_all add: emit_def)

lemma step_eq:
  "step env g s =
     (if \<not> crashed s \<and> g < length (tasks s) \<and> tasks s ! g \<noteq> []
      then exec env g (hd (tasks s ! g)) (s\<lparr>tasks := (tasks s)[g := tl (tasks s ! g)]\<rparr>)
      else s)"
  by (simp add: step_def split: list.splits)

lemma exec_frame:
  "client (exec env g i s) = client s"
  "connected (exec env g i s) = connected s"
  "defaultLogger (exec env g i s) = defaultLogger s"
  "heap_top (exec env g i s) = heap_top s"
  "flag_of (exec env g i s) = flag_of s"
  "length (tasks (exec env g i s)) = length (tasks s)"
  by (cases i; simp add: capture_def Flush_def wg_Done_def panic_def emit_def)+

lemma step_frame:
  "client (step env g s) = client s"
  "connected (step env g s) = connected s"
  "defaultLogger (step env g s) = defaultLogger s"
  "heap_top (step env g s) = heap_top s"
  "flag_of (step env g s) = flag_of s"
  "length (tasks (step env g s)) = length (tasks s)"
  by (simp_all add: step_eq exec_frame)

lemma Close_frame:
  "client (Close env l s) = client s" "connected (Close env l s) = connected s"
  "defaultLogger (Close env l s) = defaultLogger s" "flag_of (Close env l s) = flag_of s"
proof -
  obtain evs where "close_all env (closers l) (Lock s) = emit evs (Lock s)"
    using close_all_events [of env "closers l" "Lock s"] by blast
  then show "client (Close env l s) = client s" "connected (Close env l s) = connected s"
    "defaultLogger (Close env l s) = defaultLogger s" "flag_of (Close env l s) = flag_of s"
    by (simp_all add: Close_eq Lock_def Unlock_def emit_fields emit_flag_of)
qed

lemma Logger_output_frame:
  "client (Logger_output env l sv depth txt s) = client s"
  "connected (Logger_output env l sv depth txt s) = connected s"
  "defaultLogger (Logger_output env l sv depth txt s) = defaultLogger s"
  "flag_of (Logger_output env l sv depth txt s) = flag_of s"
  using Logger_output_sink_events [of env l sv depth "txt" s]
  by (auto simp add: emit_fields emit_flag_of)

lemma snio_Write_frame:
  "client (snd (snio_Write env level p s)) = client s"
  "connected (snd (snio_Write env level p s)) = connected s"
  "defaultLogger (snd (snio_Write env level p s)) = defaultLogger s"
  "flag_of (snd (snio_Write env level p s)) = flag_of s"
  by (simp_all add: snio_Write_def sentryOutput_def capture_def Flush_def emit_def Let_def)

lemma internal_snio_Write_frame:
  "client (snd (internal_snio_Write level p s)) = client s"
  "connected (snd (internal_snio_Write level p s)) = connected s"
  "defaultLogger (snd (internal_snio_Write level p s)) = defaultLogger s"
  "flag_of (snd (internal_snio_Write level p s)) = flag_of s"
  by (simp_all add: internal_snio_Write_def go_def wg_Add_def emit_def)

lemma remote_snio_Write_frame:
  "client (snd (remote_snio_Write isErrLog p s)) = client s"
  "connected (snd (remote_snio_Write isErrLog p s)) = connected s"
  "defaultLogger (snd (remote_snio_Write isErrLog p s)) = defaultLogger s"
  "flag_of (snd (remote_snio_Write isErrLog p s)) = flag_of s"
  by (simp_all add: remote_snio_Write_def go_def wg_Add_def emit_def)

lemma std_flags_perform: "\<forall>a. std_flags s a \<Longrightarrow> \<forall>a. std_flags (perform env c s) a"
proof (cases c)
  case (DoInit name verbose unused logFile)
  assume "\<forall>a. std_flags s a"
  then show ?thesis using DoInit by (simp add: std_flags_def Init_eq emit_fields emit_flag_of)
next
  case (DoLog sv depth t)
  assume "\<forall>a. std_flags s a"
  then show ?thesis using DoLog by (simp add: std_flags_def Logger_output_frame)
next
  case DoClose
  assume "\<forall>a. std_flags s a"
  then show ?thesis using DoClose by (simp add: std_flags_def Close_default_def Close_frame)
next
  case (DoSetFlags flag)
  assume "\<forall>a. std_flags s a"
  then show ?thesis using DoSetFlags by (simp add: std_flags_def SetFlags_def)
next
  case (DoWrite level p)
  assume "\<forall>a. std_flags s a"
  then show ?thesis using DoWrite by (simp add: std_flags_def snio_Write_frame)
next
  case (DoInternalWrite level p)
  assume "\<forall>a. std_flags s a"
  then show ?thesis using DoInternalWrite by (simp add: std_flags_def internal_snio_Write_frame)
next
  case (DoRemoteWrite isErrLog p)
  assume "\<forall>a. std_flags s a"
  then show ?thesis using DoRemoteWrite by (simp add: std_flags_def remote_snio_Write_frame)
next
  case (DoRun g)
  assume "\<forall>a. std_flags s a"
  then show ?thesis using DoRun by (simp add: std_flags_def step_frame)
qed

lemma std_flags_perform_all: "\<forall>a. std_flags s a \<Longrightarrow> \<forall>a. std_flags (perform_all env cs s) a"
proof (induction cs arbitrary: s)
  case Nil
  then show ?case by simp
next
  case (Cons c cs)
  from Cons.IH [OF std_flags_perform [OF Cons.prems]] show ?case by simp
qed

lemma flag_of_reachable:
  "flag_of (perform_all env cs boot) a sError = flags"
  "flag_of (perform_all env cs boot) a sFatal = flags"
proof -
  have "\<forall>a. std_flags boot a" by (simp add: std_flags_def flag_of_example)
  from std_flags_perform_all [OF this, of env cs]
  show "flag_of (perform_all env cs boot) a sError = flags"
    "flag_of (perform_all env cs boot) a sFatal = flags"
    by (simp_all add: std_flags_def)
qed

section \<open>The Fatal entry points\<close>

lemma Logger_output_prefix:
  "\<exists>evs k. Logger_output env (new_Logger env verbose logFile a) sv depth txt s =
             emit (LockEv # evs @ [UnlockEv]) s \<and>
           list_all sink_event evs \<and>
           0 < k \<and> k \<le> length (local_writers verbose logFile sv @ [Snio (sev_level sv)]) \<and>
           write_calls evs =
             map (\<lambda>w. (w, format_record env (flag_of s a sv) (sev_tag sv) (trace s @ [LockEv])
                             (3 + depth) txt))
               (take k (local_writers verbose logFile sv @ [Snio (sev_level sv)]))"
proof -
  let ?l = "new_Logger env verbose logFile a"
  let ?rec = "out_record env ?l sv depth txt s"
  let ?ws = "local_writers verbose logFile sv @ [Snio (sev_level sv)]"
  obtain evs k where evs: "snd (multiWriter_Write env ?ws ?rec (Lock s)) = emit evs (Lock s)"
    "list_all sink_event evs" "k \<le> length ?ws" "?ws = [] \<or> 0 < k"
    "write_calls evs = map (\<lambda>w. (w, ?rec)) (take k ?ws)"
    using multiWriter_prefix [of env ?ws ?rec "Lock s"] by blast
  from Logger_output_wrap [OF evs(1) log_out_new_Logger]
  have "Logger_output env ?l sv depth txt s = emit (LockEv # evs @ [UnlockEv]) s" .
  moreover have "0 < k" using evs(4) by simp
  ultimately show ?thesis
    using evs(2,3,5) unfolding out_record_new_Logger by blast
qed

lemma Logger_output_fallback:
  "Logger_output env (fallback_Logger a) sFatal depth txt s =
     emit [LockEv,
           WriteEv Stderr (format_record env (flag_of s a sFatal) (initText @ tagFatal)
                             (trace s @ [LockEv]) (3 + depth) txt),
           UnlockEv] s"
  by (simp add: Logger_output_eq out_record_def sev_log_def fallback_Logger_def log_New_def
      io_Write_def writer_Write_local Lock_def Unlock_def emit_emit)

lemma Close_new_Logger:
  "\<exists>cevs. Close env (new_Logger env verbose logFile a) s = emit (LockEv # cevs @ [UnlockEv]) s \<and>
          closed_in cevs = closers (new_Logger env verbose logFile a) \<and>
          FlushEv flashTimeout \<in> set cevs \<and> \<not> list_ex lock_event cevs"
proof -
  let ?l = "new_Logger env verbose logFile a"
  obtain cs where cs: "closers ?l = Snio LevelFatal # cs" "initialized ?l"
    by (simp add: new_Logger_def sentryFatalLog_def)
  let ?s1 = "emit [FlushEv flashTimeout, CloseEv (Snio LevelFatal) None] (Lock s)"
  obtain evs where evs: "close_all env cs ?s1 = emit evs ?s1" "closed_in evs = cs"
    "\<not> list_ex lock_event evs"
    using close_all_events [of env cs ?s1] by blast
  let ?cevs = "[FlushEv flashTimeout, CloseEv (Snio LevelFatal) None] @ evs"
  have "Close env ?l s = emit (LockEv # ?cevs @ [UnlockEv]) s"
    using evs(1) cs by (simp add: Close_eq closer_Close_eq Lock_def Unlock_def emit_emit)
  moreover have "closed_in ?cevs = closers ?l" using evs(2) cs(1) by simp
  moreover have "FlushEv flashTimeout \<in> set ?cevs" by simp
  moreover have "\<not> list_ex lock_event ?cevs" using evs(3) by (simp add: lock_event_def)
  ultimately show ?thesis by blast
qed

text \<open>
  C4. Each of \<^verbatim>\<open>Fatal\<close>, \<^verbatim>\<open>FatalDepth\<close>, \<^verbatim>\<open>Fatalln\<close> and \<^verbatim>\<open>Fatalf\<close>, as a method and as a
  package-level function on the default logger, logs its text once at the fatal severity,
  then calls \<^verbatim>\<open>Close()\<close>, then ends the process with status 1: its outcome is never a
  return. On a Logger built by \<^verbatim>\<open>Init\<close> the logging step formats one record and hands it,
  once each and in their order, to the writers of the fatal sink (\<^verbatim>\<open>logFile\<close> if there is
  one, standard error if verbose, the remote sink) up to and including the first that
  does not accept it, so to the first of them at least, and nothing else is written;
  \<^verbatim>\<open>Close()\<close> then closes every registered closer, which includes the flush of the remote
  backend with the 3 second bound. The record is \<^verbatim>\<open>FATAL: \<close> followed by the header, the text
  and a newline: the fatal log has the flags \<^verbatim>\<open>Ldate|Lmicroseconds|Lshortfile\<close> after any
  sequence of calls, \<^verbatim>\<open>SetFlags\<close> included. On the fallback logger the record goes to
  standard error with the text \<^verbatim>\<open>ERROR: Logging before logger.Init.\<close> before the tag, and \<^verbatim>\<open>Close()\<close> only takes and releases
  the lock.
\<close>

theorem Fatal_writes_closes_exits:
  "Logger_Fatal env l v s =
     Exited 1 (Close env l (Logger_output env l sFatal 0 (Sprint env v) s)) \<and>
   Logger_FatalDepth env l depth v s =
     Exited 1 (Close env l (Logger_output env l sFatal depth (Sprint env v) s)) \<and>
   Logger_Fatalln env l v s =
     Exited 1 (Close env l (Logger_output env l sFatal 0 (Sprintln env v) s)) \<and>
   Logger_Fatalf env l format v s =
     Exited 1 (Close env l (Logger_output env l sFatal 0 (Sprintf env format v) s)) \<and>
   Fatal env v s = Logger_Fatal env (defaultLogger s) v s \<and>
   FatalDepth env depth v s = Logger_FatalDepth env (defaultLogger s) depth v s \<and>
   Fatalln env v s = Logger_Fatalln env (defaultLogger s) v s \<and>
   Fatalf env format v s = Logger_Fatalf env (defaultLogger s) format v s \<and>
   (l = new_Logger env verbose logFile a \<longrightarrow>
      (\<exists>evs cevs k.
         Close env l (Logger_output env l sFatal depth txt s) =
           emit (LockEv # evs @ [UnlockEv] @ LockEv # cevs @ [UnlockEv]) s \<and>
         list_all sink_event evs \<and>
         0 < k \<and> k \<le> length (local_writers verbose logFile sFatal @ [Snio LevelFatal]) \<and>
         write_calls evs =
           map (\<lambda>w. (w, format_record env (flag_of s a sFatal) tagFatal (trace s @ [LockEv])
                           (3 + depth) txt))
             (take k (local_writers verbose logFile sFatal @ [Snio LevelFatal])) \<and>
         closed_in cevs = closers l \<and>
         FlushEv flashTimeout \<in> set cevs \<and>
         \<not> list_ex lock_event cevs)) \<and>
   format_record env flags tagFatal tr calldepth txt =
     ''FATAL: '' @ header env tr flags calldepth @ txt @
     (if txt = [] \<or> last txt \<noteq> newline then [newline] else []) \<and>
   flag_of (SetFlags flag s) a sFatal = flag_of s a sFatal \<and>
   flag_of (perform_all env cs boot) a sFatal = flags \<and>
   (l = fallback_Logger a \<longrightarrow>
      Close env l (Logger_output env l sFatal depth txt s) =
        emit [LockEv,
              WriteEv Stderr (format_record env (flag_of s a sFatal) (initText @ tagFatal)
                                (trace s @ [LockEv]) (3 + depth) txt),
              UnlockEv, LockEv, UnlockEv] s)"
proof -
  have methods: "Logger_Fatal env l v s =
     Exited 1 (Close env l (Logger_output env l sFatal 0 (Sprint env v) s)) \<and>
   Logger_FatalDepth env l depth v s =
     Exited 1 (Close env l (Logger_output env l sFatal depth (Sprint env v) s)) \<and>
   Logger_Fatalln env l v s =
     Exited 1 (Close env l (Logger_output env l sFatal 0 (Sprintln env v) s)) \<and>
   Logger_Fatalf env l format v s =
     Exited 1 (Close env l (Logger_output env l sFatal 0 (Sprintf env format v) s))"
    by (simp add: Logger_Fatal_def Logger_FatalDepth_def Logger_Fatalln_def Logger_Fatalf_def
        os_Exit_def)
  have package: "Fatal env v s = Logger_Fatal env (defaultLogger s) v s \<and>
   FatalDepth env depth v s = Logger_FatalDepth env (defaultLogger s) depth v s \<and>
   Fatalln env v s = Logger_Fatalln env (defaultLogger s) v s \<and>
   Fatalf env format v s = Logger_Fatalf env (defaultLogger s) format v s"
    by (simp add: Fatal_def FatalDepth_def Fatalln_def Fatalf_def Logger_Fatal_def
        Logger_FatalDepth_def Logger_Fatalln_def Logger_Fatalf_def Logger_output_frame)
  have rec: "format_record env flags tagFatal tr calldepth txt =
     ''FATAL: '' @ header env tr flags calldepth @ txt @
     (if txt = [] \<or> last txt \<noteq> newline then [newline] else [])"
    by (simp add: format_record_flags tagFatal_def)
  have setflags: "flag_of (SetFlags flag s) a sFatal = flag_of s a sFatal"
    by (simp add: SetFlags_def)
  have reach: "flag_of (perform_all env cs boot) a sFatal = flags"
    by (rule flag_of_reachable)
  have built: "\<exists>evs cevs k.
         Close env l (Logger_output env l sFatal depth txt s) =
           emit (LockEv # evs @ [UnlockEv] @ LockEv # cevs @ [UnlockEv]) s \<and>
         list_all sink_event evs \<and>
         0 < k \<and> k \<le> length (local_writers verbose logFile sFatal @ [Snio LevelFatal]) \<and>
         write_calls evs =
           map (\<lambda>w. (w, format_record env (flag_of s a sFatal) tagFatal (trace s @ [LockEv])
                           (3 + depth) txt))
             (take k (local_writers verbose logFile sFatal @ [Snio LevelFatal])) \<and>
         closed_in cevs = closers l \<and>
         FlushEv flashTimeout \<in> set cevs \<and>
         \<not> list_ex lock_event cevs"
    if l: "l = new_Logger env verbose logFile a"
  proof -
    obtain evs k where evs: "Logger_output env l sFatal depth txt s =
           emit (LockEv # evs @ [UnlockEv]) s" "list_all sink_event evs"
         "0 < k" "k \<le> length (local_writers verbose logFile sFatal @ [Snio LevelFatal])"
         "write_calls evs =
           map (\<lambda>w. (w, format_record env (flag_of s a sFatal) tagFatal (trace s @ [LockEv])
                           (3 + depth) txt))
             (take k (local_writers verbose logFile sFatal @ [Snio LevelFatal]))"
      using Logger_output_prefix [of env verbose logFile a sFatal depth "txt" s]
      unfolding l by (auto simp add: sev_tag_def sev_level_def)
    obtain cevs where cevs:
      "Close env l (emit (LockEv # evs @ [UnlockEv]) s) =
         emit (LockEv # cevs @ [UnlockEv]) (emit (LockEv # evs @ [UnlockEv]) s)"
      "closed_in cevs = closers l" "FlushEv flashTimeout \<in> set cevs"
      "\<not> list_ex lock_event cevs"
      using Close_new_Logger [of env verbose logFile a "emit (LockEv # evs @ [UnlockEv]) s"]
      unfolding l by blast
    have "Close env l (Logger_output env l sFatal depth txt s) =
           emit (LockEv # evs @ [UnlockEv] @ LockEv # cevs @ [UnlockEv]) s"
      using evs(1) cevs(1) by (simp add: emit_emit)
    with evs(2-5) cevs(2-4) show ?thesis by blast
  qed
  have fallback: "Close env l (Logger_output env l sFatal depth txt s) =
        emit [LockEv,
              WriteEv Stderr (format_record env (flag_of s a sFatal) (initText @ tagFatal)
                                (trace s @ [LockEv]) (3 + depth) txt),
              UnlockEv, LockEv, UnlockEv] s"
    if "l = fallback_Logger a"
    using that by (simp add: Logger_output_fallback Close_eq emit_emit) (simp add: fallback_Logger_def)
  from methods package rec setflags reach built fallback show ?thesis by blast
qed

theorem Fatal_writes_closes_exits_witness:
  "ex_Logger = new_Logger example_env False (Some (Ext 0)) 1 \<and>
   Fatal example_env [''boom''] ex_connected =
     Exited 1 (Close example_env ex_Logger
       (Logger_output example_env ex_Logger sFatal 0 (Sprint example_env [''boom''])
          ex_connected)) \<and>
   (\<exists>evs cevs k.
      Close example_env ex_Logger
        (Logger_output example_env ex_Logger sFatal 0 ''boom'' ex_connected) =
        emit (LockEv # evs @ [UnlockEv] @ LockEv # cevs @ [UnlockEv]) ex_connected \<and>
      list_all sink_event evs \<and>
      0 < k \<and> k \<le> 2 \<and>
      write_calls evs =
        map (\<lambda>w. (w, ''FATAL: 2024/01/02 03:04:05.000006 main.go:7: boom'' @ [newline]))
          (take k [Ext 0, Snio LevelFatal]) \<and>
      closed_in cevs = closers ex_Logger \<and>
      FlushEv flashTimeout \<in> set cevs \<and>
      \<not> list_ex lock_event cevs) \<and>
   fallback_Logger 0 = defaultLogger boot \<and>
   Close example_env (fallback_Logger 0)
     (Logger_output example_env (fallback_Logger 0) sFatal 0 ''boom'' boot) =
     emit [LockEv,
           WriteEv Stderr (''ERROR: Logging before logger.Init.'' @ [newline] @
             ''FATAL: 2024/01/02 03:04:05.000006 main.go:7: boom'' @ [newline]),
           UnlockEv, LockEv, UnlockEv] boot"
proof -
  have a: "ex_Logger = new_Logger example_env False (Some (Ext 0)) 1"
    by (simp add: ex_Logger_eq boot_def initialize_def)
  have b: "fallback_Logger 0 = defaultLogger boot"
    by (simp add: boot_def initialize_def)
  have rec: "format_record example_env (flag_of ex_connected 1 sFatal) tagFatal
               (trace ex_connected @ [LockEv]) (3 + 0) ''boom'' =
             ''FATAL: 2024/01/02 03:04:05.000006 main.go:7: boom'' @ [newline]"
    by (simp add: flag_of_example format_record_flags tagFatal_def newline_def)
       (simp add: example_env_def)
  have rec0: "format_record example_env (flag_of boot 0 sFatal) (initText @ tagFatal)
               (trace boot @ [LockEv]) (3 + 0) ''boom'' =
             ''ERROR: Logging before logger.Init.'' @ [newline] @
             ''FATAL: 2024/01/02 03:04:05.000006 main.go:7: boom'' @ [newline]"
    by (simp add: flag_of_example format_record_flags tagFatal_def initText_def newline_def)
       (simp add: example_env_def)
  note t1 = Fatal_writes_closes_exits [where l = ex_Logger and env = example_env
      and s = ex_connected and v = "[''boom'']" and depth = 0 and ?txt = "''boom''"
      and verbose = False and logFile = "Some (Ext 0)" and a = 1 and format = "[]"
      and flag = 0 and cs = "[]" and tr = "[]" and calldepth = 0]
  note t2 = Fatal_writes_closes_exits [where l = "fallback_Logger 0" and env = example_env
      and s = boot and v = "[''boom'']" and depth = 0 and ?txt = "''boom''"
      and verbose = False and logFile = None and a = 0 and format = "[]"
      and flag = 0 and cs = "[]" and tr = "[]" and calldepth = 0]
  have c1: "Fatal example_env [''boom''] ex_connected =
     Exited 1 (Close example_env ex_Logger
       (Logger_output example_env ex_Logger sFatal 0 (Sprint example_env [''boom''])
          ex_connected))"
    using t1 by (simp add: ex_connected_fields)
  have c2: "\<exists>evs cevs k.
      Close example_env ex_Logger
        (Logger_output example_env ex_Logger sFatal 0 ''boom'' ex_connected) =
        emit (LockEv # evs @ [UnlockEv] @ LockEv # cevs @ [UnlockEv]) ex_connected \<and>
      list_all sink_event evs \<and>
      0 < k \<and> k \<le> 2 \<and>
      write_calls evs =
        map (\<lambda>w. (w, ''FATAL: 2024/01/02 03:04:05.000006 main.go:7: boom'' @ [newline]))
          (take k [Ext 0, Snio LevelFatal]) \<and>
      closed_in cevs = closers ex_Logger \<and>
      FlushEv flashTimeout \<in> set cevs \<and>
      \<not> list_ex lock_event cevs"
    using t1 a unfolding rec by (simp add: local_writers_def numeral_2_eq_2)
  have c3: "Close example_env (fallback_Logger 0)
     (Logger_output example_env (fallback_Logger 0) sFatal 0 ''boom'' boot) =
     emit [LockEv,
           WriteEv Stderr (''ERROR: Logging before logger.Init.'' @ [newline] @
             ''FATAL: 2024/01/02 03:04:05.000006 main.go:7: boom'' @ [newline]),
           UnlockEv, LockEv, UnlockEv] boot"
    using t2 unfolding rec0 by simp
  from a b c1 c2 c3 show ?thesis by blast
qed

text \<open>\<^verbatim>\<open>Fatal("boom")\<close> on the default logger of \<^verbatim>\<open>Init("app", false, false, f)\<close> with a connected
  client, event by event.\<close>

lemma closeRes_example: "closeRes example_env tr c = None"
  by (simp add: example_env_def)

lemma Fatal_example:
  "Fatal example_env [''boom''] ex_connected =
     Exited 1 (emit
       [LockEv,
        WriteEv (Ext 0) ''FATAL: 2024/01/02 03:04:05.000006 main.go:7: boom\<newline>'',
        WriteEv (Snio LevelFatal) ''FATAL: 2024/01/02 03:04:05.000006 main.go:7: boom\<newline>'',
        CaptureEv LevelFatal ''FATAL: 2024/01/02 03:04:05.000006 main.go:7: boom\<newline>'' True,
        FlushEv 3, UnlockEv,
        LockEv, FlushEv 3, CloseEv (Snio LevelFatal) None, CloseEv (Ext 0) None, UnlockEv]
       ex_connected)"
proof -
  let ?l = "new_Logger example_env False (Some (Ext 0)) (heap_top boot)"
  let ?rec = "out_record example_env ?l sFatal 0 (Sprint example_env [''boom'']) ex_connected"
  have rec: "?rec = ''FATAL: 2024/01/02 03:04:05.000006 main.go:7: boom\<newline>''"
    by (simp add: out_record_new_Logger flag_of_example format_record_flags sev_tag_def
        tagFatal_def newline_def)
       (simp add: example_env_def Sprint_strings_def)
  have "Logger_output example_env ex_Logger sFatal 0 (Sprint example_env [''boom'']) ex_connected =
     emit (LockEv #
           map (\<lambda>w. WriteEv w ?rec)
             (local_writers False (Some (Ext 0)) sFatal @ [Snio (sev_level sFatal)]) @
           snio_events example_env (sev_level sFatal) ?rec
             (trace ex_connected @ LockEv #
              map (\<lambda>w. WriteEv w ?rec)
                (local_writers False (Some (Ext 0)) sFatal @ [Snio (sev_level sFatal)]))
             (client ex_connected) @
           [UnlockEv]) ex_connected"
    unfolding ex_Logger_eq by (rule Logger_output_accepting) (simp_all add: writeRes_example)
  then have out: "Logger_output example_env ex_Logger sFatal 0 (Sprint example_env [''boom''])
       ex_connected =
     emit [LockEv, WriteEv (Ext 0) ?rec, WriteEv (Snio LevelFatal) ?rec,
           CaptureEv LevelFatal ?rec True, FlushEv 3, UnlockEv] ex_connected"
    by (simp add: local_writers_def sev_level_def snio_events_def ex_connected_fields
        flashTimeout_def) (simp add: example_env_def)
  have "Close example_env ex_Logger
          (emit [LockEv, WriteEv (Ext 0) ?rec, WriteEv (Snio LevelFatal) ?rec,
           CaptureEv LevelFatal ?rec True, FlushEv 3, UnlockEv] ex_connected) =
        emit [LockEv, WriteEv (Ext 0) ?rec, WriteEv (Snio LevelFatal) ?rec,
           CaptureEv LevelFatal ?rec True, FlushEv 3, UnlockEv,
           LockEv, FlushEv 3, CloseEv (Snio LevelFatal) None, CloseEv (Ext 0) None, UnlockEv]
          ex_connected"
    by (simp add: Close_eq ex_Logger_fields closer_Close_eq closeRes_example Lock_def Unlock_def
        emit_emit flashTimeout_def)
  with out show ?thesis
    unfolding rec
    by (simp add: Fatal_def os_Exit_def ex_connected_fields Let_def emit_fields)
qed

section \<open>The in-flight counter\<close>

lemma adds_append: "adds (xs @ ys) = adds xs @ adds ys"
  by (induction xs rule: adds.induct) simp_all

lemma done_ids_append: "done_ids (xs @ ys) = done_ids xs @ done_ids ys"
  by (induction xs rule: done_ids.induct) simp_all

lemma balanced_alt:
  "balanced s =
     (wg s = int (in_flight s) \<and>
      list_all wf_task (tasks s) \<and>
      adds (trace s) = replicate (length (tasks s)) 1 \<and>
      distinct (done_ids (trace s)) \<and>
      set (done_ids (trace s)) = {g. g < length (tasks s) \<and> \<not> pending (tasks s ! g)})"
  by (auto simp add: balanced_def)

lemma wf_task_pending: "wf_task t \<Longrightarrow> t \<noteq> [] \<Longrightarrow> pending t"
  by (induction t rule: wf_task.induct) (auto simp add: pending_def)

lemma wf_task_Done: "wf_task (IDone # rest) \<Longrightarrow> rest = []"
  by (cases rest) simp_all

lemma wf_task_tail: "wf_task (i # rest) \<Longrightarrow> wf_task rest"
  by (cases rest) simp_all

lemma filter_update_count:
  "g < length xs \<Longrightarrow>
   length (filter P (xs[g := y])) + (if P (xs ! g) then 1 else 0) =
   length (filter P xs) + (if P y then 1 else 0)"
proof (induction xs arbitrary: g)
  case Nil
  then show ?case by simp
next
  case (Cons x xs)
  then show ?case by (cases g) auto
qed

lemma crashed_step_stuck: "crashed s \<Longrightarrow> step env g s = s"
  by (simp add: step_def)

lemma crashed_run_stuck: "crashed s \<Longrightarrow> run env acts s = s"
  by (cases acts) simp_all

lemma Wait_crashed: "crashed s \<Longrightarrow> Wait env sched s = None"
  by (cases sched) simp_all

lemma step_alive_before: "\<not> crashed (step env g s) \<Longrightarrow> \<not> crashed s"
  using crashed_step_stuck [of s env g] by auto

lemma run_alive_before: "\<not> crashed (run env acts s) \<Longrightarrow> \<not> crashed s"
  using crashed_run_stuck [of s env acts] by auto

lemma pending_in_flight:
  assumes "g < length (tasks s)" "pending (tasks s ! g)"
  shows "0 < in_flight s"
proof -
  have "tasks s ! g \<in> set (filter pending (tasks s))" using assms by simp
  then have "filter pending (tasks s) \<noteq> []" by (metis empty_iff empty_set)
  then show ?thesis by (simp add: in_flight_def)
qed

text \<open>A step that does not end the process keeps the balance.\<close>

lemma balanced_step:
  assumes b: "balanced s" and alive: "\<not> crashed (step env g s)"
  shows "balanced (step env g s)"
proof (cases "g < length (tasks s) \<and> tasks s ! g \<noteq> []")
  case False
  then have "step env g s = s" by (auto simp add: step_eq)
  with b show ?thesis by simp
next
  case True
  have a0: "\<not> crashed s" using alive by (rule step_alive_before)
  obtain i rest where t: "tasks s ! g = i # rest" using True by (cases "tasks s ! g") auto
  have g: "g < length (tasks s)" using True by simp
  have st: "step env g s = exec env g i (s\<lparr>tasks := (tasks s)[g := rest]\<rparr>)"
    using a0 g t by (simp add: step_eq)
  have wf: "wf_task (i # rest)"
    using b g t by (auto simp add: balanced_alt list_all_length)
  have wfr: "wf_task rest" using wf by (rule wf_task_tail)
  have wfs: "list_all wf_task ((tasks s)[g := rest])"
    using b wfr g by (auto simp add: balanced_alt list_all_length nth_list_update)
  have cnt: "length (filter pending ((tasks s)[g := rest])) + (if pending (i # rest) then 1 else 0) =
      length (filter pending (tasks s)) + (if pending rest then 1 else 0)"
    using filter_update_count [OF g, of pending rest] t by simp
  have pset: "{h. h < length (tasks s) \<and> \<not> pending ((tasks s)[g := rest] ! h)} =
      (if pending rest then {h. h < length (tasks s) \<and> \<not> pending (tasks s ! h)} - {g}
       else insert g {h. h < length (tasks s) \<and> \<not> pending (tasks s ! h)})"
    using g by (auto simp add: nth_list_update)
  show ?thesis
  proof (cases "i = IDone")
    case True
    have r: "rest = []" using wf True by (simp add: wf_task_Done)
    have p: "pending (i # rest)" "\<not> pending rest" using True r by (simp_all add: pending_def)
    have notin: "g \<notin> set (done_ids (trace s))"
      using b p(1) t by (simp add: balanced_alt)
    have "0 < in_flight s" using g p(1) t by (simp add: pending_in_flight)
    then have pos: "\<not> wg s - 1 < 0" using b by (simp add: balanced_alt)
    show ?thesis
      using b g t True r cnt p notin pset wfs pos
      by (simp add: balanced_alt st wg_Done_def emit_def in_flight_def done_ids_append
          adds_append)
  next
    case False
    have p: "pending rest = pending (i # rest)" using False by (simp add: pending_def)
    have same: "{h. h < length (tasks s) \<and> \<not> pending ((tasks s)[g := rest] ! h)} =
        {h. h < length (tasks s) \<and> \<not> pending (tasks s ! h)}"
      using g p t by (auto simp add: nth_list_update)
    have calm: "\<not> panics env (trace s) g"
    proof
      assume "panics env (trace s) g"
      then have "crashed (step env g s)"
        using False by (cases i) (simp_all add: st panic_def emit_def)
      with alive show False by simp
    qed
    show ?thesis
      using b g t False cnt p same wfs calm
      by (cases i)
         (simp_all add: balanced_alt st capture_def Flush_def emit_def in_flight_def
           done_ids_append adds_append)
  qed
qed

text \<open>When no call of a delivery panics, a step keeps the process alive: the counter is
  positive whenever a goroutine still has its \<^verbatim>\<open>wg.Done()\<close> to call.\<close>

lemma step_calm:
  assumes calm: "\<forall>tr g. \<not> panics env tr g" and b: "balanced s" and a0: "\<not> crashed s"
  shows "\<not> crashed (step env g s)"
proof (cases "g < length (tasks s) \<and> tasks s ! g \<noteq> []")
  case False
  then have "step env g s = s" by (auto simp add: step_eq)
  with a0 show ?thesis by simp
next
  case True
  obtain i rest where t: "tasks s ! g = i # rest" using True by (cases "tasks s ! g") auto
  have g: "g < length (tasks s)" using True by simp
  have st: "step env g s = exec env g i (s\<lparr>tasks := (tasks s)[g := rest]\<rparr>)"
    using a0 g t by (simp add: step_eq)
  show ?thesis
  proof (cases i)
    case (ICapture level src)
    then show ?thesis using calm a0 by (simp add: st capture_def emit_def)
  next
    case IFlush
    then show ?thesis using calm a0 by (simp add: st Flush_def emit_def)
  next
    case IDone
    have "pending (tasks s ! g)" using t IDone by (simp add: pending_def)
    then have "0 < in_flight s" using g by (simp add: pending_in_flight)
    then have "\<not> wg s - 1 < 0" using b by (simp add: balanced_alt)
    then show ?thesis using IDone a0 by (simp add: st wg_Done_def emit_def)
  qed
qed

lemma balanced_spawn:
  assumes "balanced s" "wf_task body" "body \<noteq> []"
  shows "balanced (go body (wg_Add 1 s))"
proof -
  have p: "pending body" using assms(2,3) by (rule wf_task_pending)
  have "{g. g < Suc (length (tasks s)) \<and> \<not> pending ((tasks s @ [body]) ! g)} =
        {g. g < length (tasks s) \<and> \<not> pending (tasks s ! g)}"
    using p by (auto simp add: nth_append less_Suc_eq)
  then show ?thesis
    using assms(1,2) p
    by (simp add: balanced_alt go_def wg_Add_def emit_def in_flight_def adds_append
        done_ids_append replicate_append_same)
qed

lemma balanced_internal_Write: "balanced s \<Longrightarrow> balanced (snd (internal_snio_Write level p s))"
  by (simp add: internal_snio_Write_def balanced_spawn)

lemma balanced_remote_Write: "balanced s \<Longrightarrow> balanced (snd (remote_snio_Write isErrLog p s))"
  by (simp add: remote_snio_Write_def balanced_spawn)

lemma spawn_frame:
  "connected (snd (internal_snio_Write level p s)) = connected s"
  "crashed (snd (internal_snio_Write level p s)) = crashed s"
  "connected s \<Longrightarrow> length (tasks (snd (internal_snio_Write level p s))) = Suc (length (tasks s))"
  "connected (snd (remote_snio_Write isErrLog p s)) = connected s"
  "crashed (snd (remote_snio_Write isErrLog p s)) = crashed s"
  "connected s \<Longrightarrow> length (tasks (snd (remote_snio_Write isErrLog p s))) = Suc (length (tasks s))"
  by (simp_all add: internal_snio_Write_def remote_snio_Write_def go_def wg_Add_def emit_def)

lemma balanced_act: "balanced s \<Longrightarrow> \<not> crashed (act env a s) \<Longrightarrow> balanced (act env a s)"
  by (cases a) (simp_all add: balanced_internal_Write balanced_remote_Write balanced_step)

lemma act_frame:
  "connected (act env a s) = connected s"
  "connected s \<Longrightarrow> length (tasks (act env a s)) = length (tasks s) + writes [a]"
  by (cases a; simp add: spawn_frame step_frame)+

lemma act_calm:
  "\<forall>tr g. \<not> panics env tr g \<Longrightarrow> balanced s \<Longrightarrow> \<not> crashed s \<Longrightarrow> \<not> crashed (act env a s)"
  by (cases a) (simp_all add: spawn_frame step_calm)

lemma writes_Cons: "writes (a # acts) = writes [a] + writes acts"
  by (cases a) simp_all

lemma run_balanced:
  "balanced s \<Longrightarrow> connected s \<Longrightarrow> \<not> crashed (run env acts s) \<Longrightarrow>
   balanced (run env acts s) \<and> connected (run env acts s) \<and>
   length (tasks (run env acts s)) = length (tasks s) + writes acts"
proof (induction acts arbitrary: s)
  case Nil
  then show ?case by simp
next
  case (Cons a acts)
  have a0: "\<not> crashed s" using Cons.prems(3) by (rule run_alive_before)
  then have r: "run env (a # acts) s = run env acts (act env a s)" by simp
  have a1: "\<not> crashed (act env a s)"
    using Cons.prems(3) unfolding r by (rule run_alive_before)
  have "balanced (act env a s)" using Cons.prems(1) a1 by (rule balanced_act)
  moreover have "connected (act env a s)" using Cons.prems(2) by (simp add: act_frame)
  moreover have "\<not> crashed (run env acts (act env a s))" using Cons.prems(3) r by simp
  ultimately have "balanced (run env acts (act env a s)) \<and>
     connected (run env acts (act env a s)) \<and>
     length (tasks (run env acts (act env a s))) = length (tasks (act env a s)) + writes acts"
    by (rule Cons.IH)
  then show ?case
    unfolding r using Cons.prems(2) writes_Cons [of a acts] by (simp add: act_frame)
qed

lemma run_calm:
  "\<forall>tr g. \<not> panics env tr g \<Longrightarrow> balanced s \<Longrightarrow> \<not> crashed s \<Longrightarrow>
   balanced (run env acts s) \<and> \<not> crashed (run env acts s)"
proof (induction acts arbitrary: s)
  case Nil
  then show ?case by simp
next
  case (Cons a acts)
  have a1: "\<not> crashed (act env a s)" using Cons.prems by (rule act_calm)
  have "balanced (act env a s)" using Cons.prems(2) a1 by (rule balanced_act)
  from Cons.IH [OF Cons.prems(1) this a1] show ?case using Cons.prems(3) by simp
qed

lemma balanced_drained:
  assumes "balanced s" "wg s = 0"
  shows "all_done s \<and> set (done_ids (trace s)) = {..<length (tasks s)}"
proof -
  have "filter pending (tasks s) = []"
    using assms by (simp add: balanced_alt in_flight_def)
  then have np: "\<forall>t\<in>set (tasks s). \<not> pending t"
    by (simp add: filter_empty_conv)
  have "\<forall>t\<in>set (tasks s). wf_task t"
    using assms(1) by (simp add: balanced_alt list_all_iff)
  with np have "\<forall>t\<in>set (tasks s). t = []"
    using wf_task_pending by blast
  then have "all_done s" by (simp add: all_done_def list_all_iff)
  moreover have "set (done_ids (trace s)) = {..<length (tasks s)}"
    using assms(1) np by (auto simp add: balanced_alt)
  ultimately show ?thesis by simp
qed

lemma Wait_Some:
  "Wait env sched s = Some s' \<Longrightarrow> balanced s \<Longrightarrow>
   balanced s' \<and> wg s' = 0 \<and> length (tasks s') = length (tasks s) \<and> \<not> crashed s'"
proof (induction sched arbitrary: s)
  case Nil
  then show ?case by (simp split: if_splits)
next
  case (Cons g gs)
  have a0: "\<not> crashed s" using Cons.prems(1) Wait_crashed [of s env "g # gs"] by auto
  show ?case
  proof (cases "wg s = 0")
    case True
    with Cons.prems a0 show ?thesis by simp
  next
    case False
    with Cons.prems a0 have w: "Wait env gs (step env g s) = Some s'" by simp
    then have "\<not> crashed (step env g s)" using Wait_crashed [of "step env g s" env gs] by auto
    with Cons.prems(2) have "balanced (step env g s)" by (rule balanced_step)
    from Cons.IH [OF w this] show ?thesis by (simp add: step_frame)
  qed
qed

lemma all_done_wg:
  assumes "balanced s" "all_done s"
  shows "wg s = 0"
proof -
  have "\<forall>t\<in>set (tasks s). \<not> pending t"
    using assms(2) by (auto simp add: all_done_def list_all_iff pending_def)
  then have "filter pending (tasks s) = []"
    by (simp add: filter_empty_conv)
  then show ?thesis using assms(1) by (simp add: balanced_alt in_flight_def)
qed

lemma Wait_fair:
  "\<forall>tr g. \<not> panics env tr g \<Longrightarrow> balanced s \<Longrightarrow> \<not> crashed s \<Longrightarrow>
   all_done (run env (map Run sched) s) \<Longrightarrow> Wait env sched s \<noteq> None"
proof (induction sched arbitrary: s)
  case Nil
  then show ?case by (simp add: all_done_wg)
next
  case (Cons g gs)
  have a1: "\<not> crashed (step env g s)" using Cons.prems(1-3) by (rule step_calm)
  have b1: "balanced (step env g s)" using Cons.prems(2) a1 by (rule balanced_step)
  have "all_done (run env (map Run gs) (step env g s))" using Cons.prems(3,4) by simp
  from Cons.IH [OF Cons.prems(1) b1 a1 this] show ?case using Cons.prems(3) by simp
qed

lemma tasks_step:
  assumes "\<not> crashed (step env g s)"
  shows "tasks (step env g s) =
     (if g < length (tasks s) then (tasks s)[g := tl (tasks s ! g)] else tasks s)"
proof (cases "g < length (tasks s) \<and> tasks s ! g \<noteq> []")
  case True
  have a0: "\<not> crashed s" using assms by (rule step_alive_before)
  from True obtain i rest where t: "tasks s ! g = i # rest" by (cases "tasks s ! g") auto
  have st: "step env g s = exec env g i (s\<lparr>tasks := (tasks s)[g := rest]\<rparr>)"
    using a0 True t by (simp add: step_eq)
  have "tasks (exec env g i (s\<lparr>tasks := (tasks s)[g := rest]\<rparr>)) = (tasks s)[g := rest]"
    using assms unfolding st
    by (cases i)
       (simp_all add: capture_def Flush_def wg_Done_def panic_def emit_def split: if_splits)
  then show ?thesis using True t st by simp
next
  case False
  have "g < length (tasks s) \<Longrightarrow> (tasks s)[g := tl (tasks s ! g)] = tasks s"
    using False by (simp add: list_update_same_conv)
  with False show ?thesis by (auto simp add: step_eq)
qed

lemma run_append: "run env (a @ b) s = run env b (run env a s)"
  by (induction env a s rule: run.induct) (simp_all add: crashed_run_stuck)

lemma tasks_run_replicate:
  "\<forall>tr g. \<not> panics env tr g \<Longrightarrow> balanced s \<Longrightarrow> \<not> crashed s \<Longrightarrow>
   tasks (run env (replicate k (Run g)) s) =
     (if g < length (tasks s) then (tasks s)[g := drop k (tasks s ! g)] else tasks s)"
proof (induction k arbitrary: s)
  case 0
  then show ?case by simp
next
  case (Suc k)
  have a1: "\<not> crashed (step env g s)" using Suc.prems by (rule step_calm)
  have b1: "balanced (step env g s)" using Suc.prems(2) a1 by (rule balanced_step)
  show ?case
    using Suc.IH [OF Suc.prems(1) b1 a1] Suc.prems(3)
    by (simp add: tasks_step [OF a1] drop_Suc)
qed

lemma tasks_run_drain_prefix:
  assumes calm: "\<forall>tr g. \<not> panics env tr g" and b: "balanced s" and a0: "\<not> crashed s"
  shows "i \<le> length (tasks s) \<Longrightarrow>
   tasks (run env (map Run (concat (map (\<lambda>g. replicate (length (tasks s ! g)) g) [0..<i]))) s) =
   map (\<lambda>g. if g < i then [] else tasks s ! g) [0..<length (tasks s)]"
proof (induction i)
  case 0
  show ?case by (simp add: map_nth)
next
  case (Suc i)
  let ?pre = "concat (map (\<lambda>g. replicate (length (tasks s ! g)) g) [0..<i])"
  let ?s1 = "run env (map Run ?pre) s"
  have ih: "tasks ?s1 = map (\<lambda>g. if g < i then [] else tasks s ! g) [0..<length (tasks s)]"
    using Suc by simp
  have good: "balanced ?s1" "\<not> crashed ?s1"
    using run_calm [OF calm b a0, of "map Run ?pre"] by simp_all
  have i: "i < length (tasks s)" using Suc.prems by simp
  have "tasks (run env (replicate (length (tasks s ! i)) (Run i)) ?s1) =
        (tasks ?s1)[i := drop (length (tasks s ! i)) (tasks ?s1 ! i)]"
    using i ih by (simp add: tasks_run_replicate [OF calm good])
  also have "\<dots> = (tasks ?s1)[i := []]"
    using i ih by simp
  also have "\<dots> = map (\<lambda>g. if g < Suc i then [] else tasks s ! g) [0..<length (tasks s)]"
    unfolding ih by (rule nth_equalityI) (auto simp add: nth_list_update less_Suc_eq)
  finally show ?case
    by (simp add: run_append)
qed

lemma all_done_drain:
  assumes "\<forall>tr g. \<not> panics env tr g" "balanced s" "\<not> crashed s"
  shows "all_done (run env (map Run (drain s)) s)"
  using tasks_run_drain_prefix [OF assms, of "length (tasks s)"]
  by (simp add: drain_def all_done_def list_all_iff)

lemma Wait_drain:
  assumes "\<forall>tr g. \<not> panics env tr g" "balanced s" "\<not> crashed s"
  shows "Wait env (drain s) s \<noteq> None"
  using assms all_done_drain [OF assms] by (rule Wait_fair)

lemma ex_connected_trace: "trace ex_connected = [LockEv, UnlockEv]"
  by (simp add: ex_connected_def ConnectSentry_def example_env_def ex_state_def Init_eq emit_def
      boot_def initialize_def)

lemma ex_connected_alive: "\<not> crashed ex_connected"
  by (simp add: ex_connected_def ConnectSentry_def example_env_def ex_state_def Init_eq emit_def
      boot_def initialize_def)

text \<open>A call of a delivery that panics: the goroutine is left without a decrement of the
  counter, and the process has ended.\<close>

lemma step_panics:
  assumes "\<not> crashed t" "g < length (tasks t)" "tasks t ! g = i # rest" "i \<noteq> IDone"
    "panics env (trace t) g"
  shows "step env g t = panic g t"
  using assms by (cases i) (simp_all add: step_eq panic_def emit_def)

text \<open>
  C1, as the code has it. Start connected and running, with the counter at zero and no
  goroutine, and let the caller write to the asynchronous sinks any number of times while
  the runtime runs the goroutines in any order, each capture succeeding or failing as the
  backend decides. Every write increments the counter once and starts one goroutine, whose
  last statement is \<^verbatim>\<open>wg.Done()\<close>; the statement is not deferred. So a delivery whose calls
  into the backend return, whatever they return, decrements the counter once; a delivery
  in which such a call panics exits without decrementing, and the panic, which nothing
  recovers, ends the process. Hence: as long as the process has not ended, the counter
  equals the number of goroutines that have not yet called \<^verbatim>\<open>wg.Done()\<close> and one goroutine
  exists per write; whenever \<^verbatim>\<open>wg.Wait()\<close> returns, under whatever schedule, the counter is
  0, every goroutine has finished, the counter was incremented once per write and every
  goroutine has called \<^verbatim>\<open>wg.Done()\<close> exactly once; if no call of a delivery panics, the
  process does not end and \<^verbatim>\<open>wg.Wait()\<close> returns under every schedule that lets all
  goroutines finish, of which \<open>drain\<close> is one; once a delivery has panicked \<^verbatim>\<open>wg.Wait()\<close> does
  not return.
\<close>

theorem inflight_counter_balanced_unless_panic:
  assumes "connected s" and "\<not> crashed s" and "wg s = 0" and "tasks s = []"
    and "adds (trace s) = []" and "done_ids (trace s) = []"
  shows "(\<not> crashed (run env acts s) \<longrightarrow>
            wg (run env acts s) = int (in_flight (run env acts s)) \<and>
            length (tasks (run env acts s)) = writes acts) \<and>
         (\<forall>sched s'. Wait env sched (run env acts s) = Some s' \<longrightarrow>
            \<not> crashed s' \<and> wg s' = 0 \<and> in_flight s' = 0 \<and> all_done s' \<and>
            length (tasks s') = writes acts \<and>
            adds (trace s') = replicate (writes acts) 1 \<and>
            distinct (done_ids (trace s')) \<and>
            set (done_ids (trace s')) = {..<writes acts}) \<and>
         ((\<forall>tr g. \<not> panics env tr g) \<longrightarrow>
            \<not> crashed (run env acts s) \<and>
            (\<forall>sched. all_done (run env (map Run sched) (run env acts s)) \<longrightarrow>
               Wait env sched (run env acts s) \<noteq> None) \<and>
            Wait env (drain (run env acts s)) (run env acts s) \<noteq> None) \<and>
         (\<forall>sched. crashed (run env acts s) \<longrightarrow> Wait env sched (run env acts s) = None) \<and>
         (\<not> crashed t \<and> g < length (tasks t) \<and> tasks t ! g = i # rest \<and> i \<noteq> IDone \<and>
          panics env (trace t) g \<longrightarrow>
            crashed (step env g t) \<and> tasks (step env g t) ! g = [] \<and>
            wg (step env g t) = wg t \<and>
            done_ids (trace (step env g t)) = done_ids (trace t) \<and>
            (\<forall>sched. Wait env sched (step env g t) = None))"
proof -
  let ?s1 = "run env acts s"
  have b0: "balanced s"
    using assms by (simp add: balanced_alt in_flight_def)
  have alive: "wg ?s1 = int (in_flight ?s1) \<and> length (tasks ?s1) = writes acts"
    if "\<not> crashed ?s1"
    using run_balanced [OF b0 assms(1) that] assms(4) by (simp add: balanced_alt)
  have after: "\<not> crashed s' \<and> wg s' = 0 \<and> in_flight s' = 0 \<and> all_done s' \<and>
            length (tasks s') = writes acts \<and>
            adds (trace s') = replicate (writes acts) 1 \<and>
            distinct (done_ids (trace s')) \<and>
            set (done_ids (trace s')) = {..<writes acts}"
    if w: "Wait env sched ?s1 = Some s'" for sched s'
  proof -
    have a1: "\<not> crashed ?s1" using w Wait_crashed [of ?s1 env sched] by auto
    have b1: "balanced ?s1" and n1: "length (tasks ?s1) = writes acts"
      using run_balanced [OF b0 assms(1) a1] assms(4) by simp_all
    from Wait_Some [OF w b1] have b: "balanced s'" and z: "wg s' = 0"
      and n: "length (tasks s') = writes acts" and a: "\<not> crashed s'"
      using n1 by simp_all
    from balanced_drained [OF b z] b z n a show ?thesis
      by (simp add: balanced_alt)
  qed
  have calm: "\<not> crashed ?s1 \<and>
            (\<forall>sched. all_done (run env (map Run sched) ?s1) \<longrightarrow> Wait env sched ?s1 \<noteq> None) \<and>
            Wait env (drain ?s1) ?s1 \<noteq> None"
    if c: "\<forall>tr g. \<not> panics env tr g"
  proof -
    have good: "balanced ?s1" "\<not> crashed ?s1"
      using run_calm [OF c b0 assms(2), of acts] by simp_all
    have "Wait env sched ?s1 \<noteq> None" if "all_done (run env (map Run sched) ?s1)" for sched
      using c good that by (rule Wait_fair)
    moreover have "Wait env (drain ?s1) ?s1 \<noteq> None"
      using c good by (rule Wait_drain)
    ultimately show ?thesis using good(2) by blast
  qed
  have dead: "Wait env sched ?s1 = None" if "crashed ?s1" for sched
    using that by (rule Wait_crashed)
  have leak: "crashed (step env g t) \<and> tasks (step env g t) ! g = [] \<and>
            wg (step env g t) = wg t \<and>
            done_ids (trace (step env g t)) = done_ids (trace t) \<and>
            (\<forall>sched. Wait env sched (step env g t) = None)"
    if h: "\<not> crashed t \<and> g < length (tasks t) \<and> tasks t ! g = i # rest \<and> i \<noteq> IDone \<and>
          panics env (trace t) g"
  proof -
    have st: "step env g t = panic g t" using h by (simp add: step_panics)
    have c: "crashed (step env g t)" by (simp add: st panic_def emit_def)
    have "tasks (step env g t) ! g = []" "wg (step env g t) = wg t"
      "done_ids (trace (step env g t)) = done_ids (trace t)"
      using h by (simp_all add: st panic_def emit_def done_ids_append)
    moreover have "\<forall>sched. Wait env sched (step env g t) = None"
      using c by (simp add: Wait_crashed)
    ultimately show ?thesis using c by simp
  qed
  from alive after calm dead leak show ?thesis by blast
qed

theorem inflight_counter_balanced_unless_panic_witness:
  "connected ex_connected \<and> \<not> crashed ex_connected \<and> wg ex_connected = 0 \<and>
   tasks ex_connected = [] \<and>
   adds (trace ex_connected) = [] \<and> done_ids (trace ex_connected) = [] \<and>
   (\<forall>tr g. \<not> panics refusing_env tr g) \<and>
   \<not> crashed (run refusing_env ex_acts ex_connected) \<and>
   wg (run refusing_env ex_acts ex_connected) =
     int (in_flight (run refusing_env ex_acts ex_connected)) \<and>
   (\<exists>s'. Wait refusing_env (drain (run refusing_env ex_acts ex_connected))
            (run refusing_env ex_acts ex_connected) = Some s' \<and>
         \<not> crashed s' \<and> wg s' = 0 \<and> in_flight s' = 0 \<and> all_done s' \<and>
         length (tasks s') = 2 \<and>
         adds (trace s') = [1, 1] \<and> distinct (done_ids (trace s')) \<and>
         set (done_ids (trace s')) = {..<2}) \<and>
   tasks (snd (internal_snio_Write LevelError ''a'' ex_connected)) ! 0 =
     ICapture LevelError (Slice ''a'') # [IFlush, IDone] \<and>
   panics panicking_env (trace (snd (internal_snio_Write LevelError ''a'' ex_connected))) 0 \<and>
   crashed (step panicking_env 0 (snd (internal_snio_Write LevelError ''a'' ex_connected))) \<and>
   wg (step panicking_env 0 (snd (internal_snio_Write LevelError ''a'' ex_connected))) = 1 \<and>
   done_ids (trace
     (step panicking_env 0 (snd (internal_snio_Write LevelError ''a'' ex_connected)))) = []"
proof -
  have h: "connected ex_connected" "\<not> crashed ex_connected" "wg ex_connected = 0"
    "tasks ex_connected = []"
    "adds (trace ex_connected) = []" "done_ids (trace ex_connected) = []"
    by (simp_all add: ex_connected_fields ex_connected_trace ex_connected_alive)
  have c: "\<forall>tr g. \<not> panics refusing_env tr g"
    by (simp add: refusing_env_def example_env_def)
  have n: "writes ex_acts = 2" by (simp add: ex_acts_def)
  note t = inflight_counter_balanced_unless_panic [OF h, where env = refusing_env
      and acts = ex_acts and t = ex_connected and g = 0 and i = IFlush and rest = "[]"]
  from t c have a: "\<not> crashed (run refusing_env ex_acts ex_connected)" by blast
  with t have e: "wg (run refusing_env ex_acts ex_connected) =
     int (in_flight (run refusing_env ex_acts ex_connected))" by blast
  from t c obtain s' where w: "Wait refusing_env (drain (run refusing_env ex_acts ex_connected))
            (run refusing_env ex_acts ex_connected) = Some s'"
    by blast
  with t have r: "\<not> crashed s' \<and> wg s' = 0 \<and> in_flight s' = 0 \<and> all_done s' \<and>
         length (tasks s') = 2 \<and>
         adds (trace s') = [1, 1] \<and> distinct (done_ids (trace s')) \<and>
         set (done_ids (trace s')) = {..<2}"
    using n by (auto simp add: numeral_2_eq_2)
  let ?t = "snd (internal_snio_Write LevelError ''a'' ex_connected)"
  have f: "\<not> crashed ?t" "0 < length (tasks ?t)"
    "tasks ?t ! 0 = ICapture LevelError (Slice ''a'') # [IFlush, IDone]"
    "ICapture LevelError (Slice ''a'') \<noteq> IDone" "panics panicking_env (trace ?t) 0"
    "wg ?t = 1" "done_ids (trace ?t) = []"
    by (simp_all add: internal_snio_Write_def ex_connected_fields ex_connected_alive
        ex_connected_trace go_def wg_Add_def emit_def panicking_env_def example_env_def)
  note u = inflight_counter_balanced_unless_panic [OF h, where env = panicking_env
      and acts = "[]" and t = ?t and g = 0 and i = "ICapture LevelError (Slice ''a'')"
      and rest = "[IFlush, IDone]"]
  from u f have p: "crashed (step panicking_env 0 ?t) \<and> wg (step panicking_env 0 ?t) = 1 \<and>
     done_ids (trace (step panicking_env 0 ?t)) = []"
    by simp
  from h c a e w r f(3,5) p show ?thesis by blast
qed

text \<open>One write, and a delivery whose capture panics: the counter was incremented and the
  goroutine has exited, no decrement was made, the counter stays at 1, and \<^verbatim>\<open>wg.Wait()\<close>
  does not return, whatever the schedule.\<close>

theorem panicking_delivery_counterexample:
  "adds (trace (run panicking_env [CallWrite LevelError ''a'', Run 0] ex_connected)) = [1] \<and>
   all_done (run panicking_env [CallWrite LevelError ''a'', Run 0] ex_connected) \<and>
   done_ids (trace (run panicking_env [CallWrite LevelError ''a'', Run 0] ex_connected)) = [] \<and>
   wg (run panicking_env [CallWrite LevelError ''a'', Run 0] ex_connected) = 1 \<and>
   Wait panicking_env [0, 0, 0]
     (run panicking_env [CallWrite LevelError ''a'', Run 0] ex_connected) = None"
  by (simp add: internal_snio_Write_def ex_connected_fields ex_connected_alive
      ex_connected_trace go_def wg_Add_def emit_def step_def panic_def all_done_def
      panicking_env_def example_env_def)

text \<open>The example's two writes, with a backend that refuses both messages, before the
  wait.\<close>

lemma run_example_trace:
  "new_events ex_connected (run refusing_env ex_acts ex_connected) =
     [AddEv 1, CaptureEv LevelError ''a'' False, AddEv 1, CaptureEv LevelError ''b'' False] \<and>
   wg (run refusing_env ex_acts ex_connected) = 2 \<and>
   tasks (run refusing_env ex_acts ex_connected) = [[IFlush, IDone], [IDone]]"
  by (simp add: ex_acts_def internal_snio_Write_def remote_snio_Write_def ex_connected_fields
      ex_connected_alive go_def wg_Add_def step_def capture_def message_def emit_def
      new_events_def refusing_env_def example_env_def)

section \<open>Rinfof\<close>

lemma Logger_output_Info_example:
  "Logger_output example_env ex_Logger sInfo 0 txt ex_connected =
     emit [LockEv,
           WriteEv (Ext 0)
             (format_record example_env flags tagInfo [LockEv, UnlockEv, LockEv] 3 txt),
           WriteEv (Snio LevelInfo)
             (format_record example_env flags tagInfo [LockEv, UnlockEv, LockEv] 3 txt),
           CaptureEv LevelInfo
             (format_record example_env flags tagInfo [LockEv, UnlockEv, LockEv] 3 txt) True,
           UnlockEv] ex_connected"
proof -
  let ?l = "new_Logger example_env False (Some (Ext 0)) (heap_top boot)"
  let ?rec = "out_record example_env ?l sInfo 0 txt ex_connected"
  have rec: "?rec = format_record example_env flags tagInfo [LockEv, UnlockEv, LockEv] 3 txt"
    by (simp add: out_record_new_Logger flag_of_example sev_tag_def ex_connected_trace)
  have "Logger_output example_env ex_Logger sInfo 0 txt ex_connected =
     emit (LockEv #
           map (\<lambda>w. WriteEv w ?rec)
             (local_writers False (Some (Ext 0)) sInfo @ [Snio (sev_level sInfo)]) @
           snio_events example_env (sev_level sInfo) ?rec
             (trace ex_connected @ LockEv #
              map (\<lambda>w. WriteEv w ?rec)
                (local_writers False (Some (Ext 0)) sInfo @ [Snio (sev_level sInfo)]))
             (client ex_connected) @
           [UnlockEv]) ex_connected"
    unfolding ex_Logger_eq by (rule Logger_output_accepting) (simp_all add: writeRes_example)
  then show ?thesis
    unfolding rec
    by (simp add: local_writers_def sev_level_def snio_events_def ex_connected_fields)
       (simp add: example_env_def)
qed

lemma internal_Info_example:
  assumes "connected s" "wg s = 0" "tasks s = []" "\<not> crashed s"
  shows "internal_Info example_env [0, 0, 0] text s =
     Some (emit [AddEv 1, CaptureEv LevelInfo text True, FlushEv 3, DoneEv 0]
             (s\<lparr>tasks := [[]]\<rparr>))"
  using assms
  by (simp add: internal_Info_def go_def wg_Add_def step_def capture_def Flush_def wg_Done_def
      message_def emit_def flashTimeout_def example_env_def)

text \<open>
  C8, at a concrete input. \<^verbatim>\<open>Rinfof("%s items", "3")\<close> of unnamed/part_002 with a connected
  backend: the local record carries the formatted text \<^verbatim>\<open>3 items\<close>, but the delivery through
  package internal carries the format string \<^verbatim>\<open>%s items\<close> itself, because \<^verbatim>\<open>internal.Info\<close>
  is called on \<^verbatim>\<open>a\<close> and not on \<^verbatim>\<open>t\<close>. The earlier \<^verbatim>\<open>Rinfof\<close> of unnamed/part_001 delivers
  \<^verbatim>\<open>3 items\<close> on both paths.
\<close>

theorem Rinfof_sends_unformatted_text:
  "map_option (new_events ex_connected)
     (Rinfof example_env [0, 0, 0] ''%s items'' [''3''] ex_connected) =
   Some [LockEv,
         WriteEv (Ext 0) ''INFO : 2024/01/02 03:04:05.000006 main.go:7: 3 items\<newline>'',
         WriteEv (Snio LevelInfo) ''INFO : 2024/01/02 03:04:05.000006 main.go:7: 3 items\<newline>'',
         CaptureEv LevelInfo ''INFO : 2024/01/02 03:04:05.000006 main.go:7: 3 items\<newline>'' True,
         UnlockEv,
         AddEv 1, CaptureEv LevelInfo ''%s items'' True, FlushEv 3, DoneEv 0] \<and>
   map_option (new_events ex_connected)
     (Rinfof_1 example_env [0, 0, 0] ''%s items'' [''3''] ex_connected) =
   Some [LockEv,
         WriteEv (Ext 0) ''INFO : 2024/01/02 03:04:05.000006 main.go:7: 3 items\<newline>'',
         WriteEv (Snio LevelInfo) ''INFO : 2024/01/02 03:04:05.000006 main.go:7: 3 items\<newline>'',
         CaptureEv LevelInfo ''INFO : 2024/01/02 03:04:05.000006 main.go:7: 3 items\<newline>'' True,
         UnlockEv,
         AddEv 1, CaptureEv LevelInfo ''3 items'' True, FlushEv 3, DoneEv 0]"
proof -
  have f: "Sprintf example_env ''%s items'' [''3''] = ''3 items''"
    by (simp add: example_env_def)
  have r: "format_record example_env flags tagInfo [LockEv, UnlockEv, LockEv] 3 ''3 items'' =
      ''INFO : 2024/01/02 03:04:05.000006 main.go:7: 3 items\<newline>''"
    by (simp add: format_record_flags tagInfo_def newline_def) (simp add: example_env_def)
  let ?s1 = "Logger_output example_env ex_Logger sInfo 0 ''3 items'' ex_connected"
  have s1: "connected ?s1" "wg ?s1 = 0" "tasks ?s1 = []" "\<not> crashed ?s1"
    by (simp_all add: Logger_output_Info_example emit_fields emit_flag_of ex_connected_fields
        ex_connected_alive)
  show ?thesis
    by (simp add: Rinfof_def Rinfof_1_def Rinfo_1_def Let_def f ex_connected_fields
        internal_Info_example [OF s1])
       (simp add: Logger_output_Info_example r new_events_def emit_def)
qed

section \<open>A sink that is not connected does nothing\<close>

lemma perform_flags:
  "client (perform env c s) = client s \<and> connected (perform env c s) = connected s"
proof (cases c)
  case (DoInit name verbose unused logFile)
  then show ?thesis by (simp add: Init_eq emit_fields)
next
  case (DoLog sv depth t)
  then show ?thesis by (simp add: Logger_output_frame)
next
  case DoClose
  then show ?thesis by (simp add: Close_default_def Close_frame)
next
  case (DoSetFlags flag)
  then show ?thesis by (simp add: SetFlags_def)
next
  case (DoWrite level p)
  then show ?thesis
    by (simp add: snio_Write_def sentryOutput_def capture_def Flush_def emit_def Let_def)
next
  case (DoInternalWrite level p)
  then show ?thesis by (simp add: internal_snio_Write_def go_def wg_Add_def emit_def)
next
  case (DoRemoteWrite isErrLog p)
  then show ?thesis by (simp add: remote_snio_Write_def go_def wg_Add_def emit_def)
next
  case (DoRun g)
  then show ?thesis by (simp add: step_frame)
qed

lemma perform_all_flags:
  "client (perform_all env cs s) = client s \<and> connected (perform_all env cs s) = connected s"
  by (induction cs arbitrary: s) (simp_all add: perform_flags)

text \<open>
  C5. While the backend is not connected (\<^verbatim>\<open>connected\<close> is false for the sinks of packages
  internal and remote, the hub has no client for the sink of package logger), a write to
  the remote sink returns \<open>(0, nil)\<close> and leaves the whole process state as it was: the
  counter is not incremented, no goroutine is started, nothing is captured, and the call
  neither locks nor waits. The process starts in this state and stays in it as long as
  \<^verbatim>\<open>ConnectSentry\<close> is not called: after any sequence of the other calls every such write
  is still without effect.
\<close>

theorem disconnected_Write_noop:
  "(\<not> client s \<longrightarrow> snio_Write env level p s = ((0, None), s)) \<and>
   (\<not> connected s \<longrightarrow>
      internal_snio_Write level p s = ((0, None), s) \<and>
      remote_snio_Write isErrLog p s = ((0, None), s)) \<and>
   \<not> client (perform_all env cs boot) \<and> \<not> connected (perform_all env cs boot) \<and>
   snio_Write env level p (perform_all env cs boot) = ((0, None), perform_all env cs boot) \<and>
   internal_snio_Write level p (perform_all env cs boot) =
     ((0, None), perform_all env cs boot) \<and>
   remote_snio_Write isErrLog p (perform_all env cs boot) =
     ((0, None), perform_all env cs boot)"
  by (simp add: snio_Write_def internal_snio_Write_def remote_snio_Write_def boot_fields
      perform_all_flags)

theorem disconnected_Write_noop_witness:
  "\<not> client boot \<and> \<not> connected boot \<and>
   snio_Write example_env LevelError ''x'' boot = ((0, None), boot) \<and>
   internal_snio_Write LevelError ''x'' boot = ((0, None), boot) \<and>
   remote_snio_Write True ''x'' boot = ((0, None), boot) \<and>
   internal_snio_Write LevelError ''x''
     (perform_all example_env [DoInit ''app'' True False None, DoLog sError 0 ''x''] boot) =
     ((0, None),
      perform_all example_env [DoInit ''app'' True False None, DoLog sError 0 ''x''] boot)"
  using disconnected_Write_noop [of boot example_env LevelError "''x''" True
      "[DoInit ''app'' True False None, DoLog sError 0 ''x'']"]
  by (simp add: boot_fields del: perform_all.simps)

section \<open>The default logger is set by the first Init only\<close>

lemma perform_default:
  "initialized (defaultLogger s) \<Longrightarrow> defaultLogger (perform env c s) = defaultLogger s"
proof (cases c)
  case (DoInit name verbose unused logFile)
  assume "initialized (defaultLogger s)"
  with DoInit show ?thesis by (simp add: default_Init)
next
  case (DoLog sv depth t)
  then show ?thesis by (simp add: Logger_output_frame)
next
  case DoClose
  then show ?thesis by (simp add: Close_default_def Close_frame)
next
  case (DoSetFlags flag)
  then show ?thesis by (simp add: SetFlags_def)
next
  case (DoWrite level p)
  then show ?thesis
    by (simp add: snio_Write_def sentryOutput_def capture_def Flush_def emit_def Let_def)
next
  case (DoInternalWrite level p)
  then show ?thesis by (simp add: internal_snio_Write_def go_def wg_Add_def emit_def)
next
  case (DoRemoteWrite isErrLog p)
  then show ?thesis by (simp add: remote_snio_Write_def go_def wg_Add_def emit_def)
next
  case (DoRun g)
  then show ?thesis by (simp add: step_frame)
qed

lemma perform_all_default:
  "initialized (defaultLogger s) \<Longrightarrow> defaultLogger (perform_all env cs s) = defaultLogger s"
  by (induction cs arbitrary: s) (simp_all add: perform_default)

text \<open>
  C7. Every \<^verbatim>\<open>Init\<close> call returns the Logger it has just generated (a fresh address,
  \<^verbatim>\<open>initialized\<close> set) and does its check-and-set between taking and releasing the lock.
  It installs that Logger as the default exactly when the default is not initialized.
  Hence in any sequence of \<^verbatim>\<open>Init\<close> calls starting with an uninitialized default (as the
  process starts) the default logger is the one of the first call, and once the default is
  initialized no sequence of \<^verbatim>\<open>Init\<close> calls changes it, while each call still returns its own
  Logger, at its own address; nor does any sequence of \<^verbatim>\<open>Init\<close>, logging, \<^verbatim>\<open>Close\<close>,
  \<^verbatim>\<open>SetFlags\<close>, sink writes and goroutine steps.
\<close>

theorem Init_sets_default_once:
  "fst (Init env name verbose unused logFile s) = new_Logger env verbose logFile (heap_top s) \<and>
   initialized (fst (Init env name verbose unused logFile s)) \<and>
   new_events s (snd (Init env name verbose unused logFile s)) = [LockEv, UnlockEv] \<and>
   defaultLogger (snd (Init env name verbose unused logFile s)) =
     (if initialized (defaultLogger s) then defaultLogger s
      else fst (Init env name verbose unused logFile s)) \<and>
   (initialized (defaultLogger s) \<longrightarrow>
      defaultLogger (snd (Init_all env cs s)) = defaultLogger s \<and>
      defaultLogger (perform_all env calls s) = defaultLogger s) \<and>
   (\<not> initialized (defaultLogger s) \<longrightarrow>
      defaultLogger (snd (Init_all env ((name, verbose, unused, logFile) # cs) s)) =
        fst (Init env name verbose unused logFile s)) \<and>
   fst (Init_all env cs s) = new_Loggers env cs (heap_top s) \<and>
   map addr (new_Loggers env cs (heap_top s)) = [heap_top s..<heap_top s + length cs] \<and>
   \<not> initialized (defaultLogger boot) \<and> addr (defaultLogger boot) < heap_top boot"
proof -
  have "new_events s (snd (Init env name verbose unused logFile s)) = [LockEv, UnlockEv]"
    by (simp add: Init_eq new_events_def emit_def)
  moreover have "\<not> initialized (defaultLogger boot) \<and> addr (defaultLogger boot) < heap_top boot"
    by (simp add: boot_def initialize_def fallback_Logger_def)
  ultimately show ?thesis
    using default_Init_all_first [of s env name verbose unused logFile cs]
      default_Init_all_kept [of s env cs] perform_all_default [of s env calls]
    by (simp add: fst_Init_all addr_new_Loggers fst_Init default_Init)
       (simp add: new_Logger_def)
qed

theorem Init_sets_default_once_witness:
  "\<not> initialized (defaultLogger boot) \<and>
   defaultLogger (snd (Init_all example_env
       [(''app'', False, False, Some (Ext 0)), (''other'', True, False, None)] boot)) =
     ex_Logger \<and>
   initialized (defaultLogger ex_state) \<and>
   defaultLogger (snd (Init_all example_env [(''other'', True, False, None)] ex_state)) =
     defaultLogger ex_state \<and>
   fst (Init example_env ''other'' True False None ex_state) \<noteq> defaultLogger ex_state \<and>
   defaultLogger (perform_all example_env
       [DoInit ''other'' True False None, DoLog sInfo 0 ''x'', DoClose] ex_state) =
     defaultLogger ex_state"
proof -
  have a: "\<not> initialized (defaultLogger boot)"
    by (simp add: boot_def initialize_def fallback_Logger_def)
  have b: "defaultLogger ex_state = ex_Logger"
    using a by (simp add: ex_state_def ex_Logger_def default_Init fst_Init)
  have c: "initialized (defaultLogger ex_state)"
    by (simp add: b ex_Logger_fields)
  have d: "addr (fst (Init example_env ''other'' True False None ex_state)) \<noteq> addr ex_Logger"
    by (simp add: fst_Init ex_state_def ex_Logger_def heap_top_Init new_Logger_def)
  from a c d show ?thesis
    using Init_sets_default_once [where env = example_env and name = "''app''"
        and verbose = False and unused = False and logFile = "Some (Ext 0)" and s = boot
        and cs = "[(''other'', True, False, None)]"]
      Init_sets_default_once [where env = example_env and name = "''other''"
        and verbose = True and unused = False and logFile = None and s = ex_state
        and cs = "[(''other'', True, False, None)]"
        and calls = "[DoInit ''other'' True False None, DoLog sInfo 0 ''x'', DoClose]"]
    by (auto simp add: b ex_Logger_def simp del: perform_all.simps)
qed

end
